theory Spec2Isabelle
  imports Complex_Main "HOL-Library.Log_Nat"
begin

section \<open>Login credential check (frontend, NextAuth options)\<close>

text \<open>
  \<^verbatim>\<open>process.env\<close> is a dictionary from variable names to strings; a variable that
  is not set reads as \<^verbatim>\<open>undefined\<close>, modelled by \<open>None\<close>. The code only compares
  strings for equality and tests them for emptiness, so a string is modelled by the list
  of its characters.
\<close>

type_synonym env = "string \<rightharpoonup> string"

text \<open>
  The credentials object handed to \<^verbatim>\<open>authorize\<close> may be absent, and each of its two
  fields may be absent (\<^verbatim>\<open>credentials?.username\<close> is then \<^verbatim>\<open>undefined\<close>).
\<close>

record credentials =
  username :: "string option"
  password :: "string option"

record user =
  id' :: string
  name :: string
  email :: string
  role :: string

text \<open>
  JavaScript's \<^verbatim>\<open>a || b\<close> on a value that is a string or \<^verbatim>\<open>undefined\<close>: the left
  operand when it is truthy, the right one otherwise. \<^verbatim>\<open>undefined\<close> and the empty
  string are the falsy values of that type.
\<close>

definition js_or :: "string option \<Rightarrow> string \<Rightarrow> string" where
  "js_or a b = (case a of None \<Rightarrow> b | Some s \<Rightarrow> if s = [] then b else s)"

text \<open>\<^verbatim>\<open>credentials?.username\<close> and \<^verbatim>\<open>credentials?.password\<close>.\<close>

definition opt_username :: "credentials option \<Rightarrow> string option" where
  "opt_username c = (case c of None \<Rightarrow> None | Some r \<Rightarrow> username r)"

definition opt_password :: "credentials option \<Rightarrow> string option" where
  "opt_password c = (case c of None \<Rightarrow> None | Some r \<Rightarrow> password r)"

definition admin_user :: user where
  "admin_user = \<lparr>id' = ''1'', name = ''Admin'', email = ''admin@ev0.local'', role = ''admin''\<rparr>"

text \<open>
  \<^verbatim>\<open>authorize(credentials)\<close>: strict equality \<^verbatim>\<open>===\<close> of an absent field with a
  string is false, so an absent field never matches. \<open>None\<close> is the returned \<^verbatim>\<open>null\<close>.
\<close>

definition authorize :: "env \<Rightarrow> credentials option \<Rightarrow> user option" where
  "authorize process_env credentials =
     (let validUsername = js_or (process_env ''ADMIN_USERNAME'') ''admin'';
          validPassword = js_or (process_env ''ADMIN_PASSWORD'') ''admin''
      in if opt_username credentials = Some validUsername \<and>
            opt_password credentials = Some validPassword
         then Some admin_user
         else None)"

text \<open>
  The reference value as the specification words it: the environment value, and
  \<^verbatim>\<open>'admin'\<close> when the variable is unset.
\<close>

definition spec_valid :: "string option \<Rightarrow> string" where
  "spec_valid v = (case v of None \<Rightarrow> ''admin'' | Some s \<Rightarrow> s)"

definition spec_accepts :: "env \<Rightarrow> credentials option \<Rightarrow> bool" where
  "spec_accepts process_env credentials =
     (opt_username credentials = Some (spec_valid (process_env ''ADMIN_USERNAME'')) \<and>
      opt_password credentials = Some (spec_valid (process_env ''ADMIN_PASSWORD'')))"


section \<open>Bet selection pipeline (strategy document)\<close>

text \<open>
  A prediction is the dictionary \<^verbatim>\<open>pred\<close> of \<^verbatim>\<open>select_bets\<close>; the loop reads the
  keys \<^verbatim>\<open>projected_mins\<close>, \<^verbatim>\<open>is_confirmed_starter\<close> and \<^verbatim>\<open>edge\<close>. The player
  identifier is the key of the odds dictionary
  (\<^verbatim>\<open>odds_data: { "player_canonical_id": decimal_odd }\<close>). Python floats are modelled
  by real numbers.
\<close>

record prediction =
  player_id :: string
  projected_mins :: real
  is_confirmed_starter :: bool
  edge :: real

type_synonym odds_data = "string \<rightharpoonup> real"

text \<open>
  The body of the \<^verbatim>\<open>for pred in predictions\<close> loop: \<^verbatim>\<open>continue\<close> skips the
  prediction, \<^verbatim>\<open>bets.append\<close> keeps the order of the predictions. The helper
  \<^verbatim>\<open>create_bet\<close> and the constant \<^verbatim>\<open>FLAT_UNIT\<close> are not part of the repository and
  are parameters. The argument \<^verbatim>\<open>odds\<close> is passed along exactly as in the source,
  where the loop never reads it.
\<close>

fun select_loop ::
  "(prediction \<Rightarrow> real \<Rightarrow> 'b) \<Rightarrow> real \<Rightarrow> odds_data \<Rightarrow> string \<Rightarrow> prediction list \<Rightarrow> 'b list"
where
  "select_loop create_bet FLAT_UNIT odds phase [] = []"
| "select_loop create_bet FLAT_UNIT odds phase (pred # rest) =
     (let min_mins = (if phase = ''EARLY'' then 70 else 0);
          min_edge = (if phase = ''EARLY'' then 5 / 100 else 3 / 100)
      in if phase = ''EARLY'' \<and> projected_mins pred < min_mins
           then select_loop create_bet FLAT_UNIT odds phase rest
         else if phase = ''LINEUP'' \<and> \<not> is_confirmed_starter pred
           then select_loop create_bet FLAT_UNIT odds phase rest
         else if edge pred < min_edge
           then select_loop create_bet FLAT_UNIT odds phase rest
         else (let stake_factor = (if phase = ''EARLY'' then 75 / 100 else 1)
               in create_bet pred (FLAT_UNIT * stake_factor)
                    # select_loop create_bet FLAT_UNIT odds phase rest))"

text \<open>
  \<^verbatim>\<open>select_bets(predictions, odds, phase)\<close>; \<^verbatim>\<open>apply_exposure_caps\<close> is called on
  the collected bets and is a parameter here.
\<close>

definition select_bets ::
  "(prediction \<Rightarrow> real \<Rightarrow> 'b) \<Rightarrow> real \<Rightarrow> ('b list \<Rightarrow> 'c) \<Rightarrow>
   prediction list \<Rightarrow> odds_data \<Rightarrow> string \<Rightarrow> 'c"
where
  "select_bets create_bet FLAT_UNIT apply_exposure_caps predictions odds phase =
     apply_exposure_caps (select_loop create_bet FLAT_UNIT odds phase predictions)"


section \<open>Floating-point arithmetic of the formulas\<close>

text \<open>
  The quantities of the odds and edge formulas are Python floats, that is IEEE 754
  binary64 numbers. A finite double is modelled by the real number it denotes, and every
  arithmetic operation computes the exact result and rounds it to the nearest double,
  ties to even.

  \<open>ilog2 x\<close> is the binary exponent of a positive \<open>x\<close>, the integer \<open>e\<close> with
  \<open>2\<^sup>e \<le> x < 2\<^sup>e\<^sup>+\<^sup>1\<close>.
\<close>

definition ilog2 :: "real \<Rightarrow> int" where
  "ilog2 x = (if 1 \<le> x then bitlen \<lfloor>x\<rfloor> - 1 else - bitlen (\<lceil>1 / x\<rceil> - 1))"

text \<open>Rounding to the nearest integer, a tie going to the even neighbour.\<close>

definition round_half_even :: "real \<Rightarrow> int" where
  "round_half_even m =
     (let f = \<lfloor>m\<rfloor>; d = m - of_int f
      in if d < 1 / 2 then f
         else if 1 / 2 < d then f + 1
         else if even f then f else f + 1)"

text \<open>
  The spacing of the doubles around \<open>x\<close>: 53 significant bits, and the fixed spacing
  \<open>2\<^sup>-\<^sup>1\<^sup>0\<^sup>7\<^sup>4\<close> of the subnormal numbers below \<open>2\<^sup>-\<^sup>1\<^sup>0\<^sup>2\<^sup>2\<close>.
\<close>

definition quantum :: "real \<Rightarrow> real" where
  "quantum x = 2 powi (max (ilog2 \<bar>x\<bar>) (- 1022) - 52)"

text \<open>
  \<open>fl x\<close> is the double nearest to \<open>x\<close>. The exponent range is not bounded above: a
  result beyond the largest double, where IEEE arithmetic gives an infinity, is outside
  the model, and the theorems below bound their operands so that none arises.
\<close>

definition fl :: "real \<Rightarrow> real" where
  "fl x = (if x = 0 then 0
           else sgn x * (of_int (round_half_even (\<bar>x\<bar> / quantum x)) * quantum x))"

datatype py_error = ZeroDivisionError

text \<open>Python's \<^verbatim>\<open>+\<close>, \<^verbatim>\<open>-\<close> and \<^verbatim>\<open>*\<close> on floats.\<close>

definition fadd :: "real \<Rightarrow> real \<Rightarrow> real" where
  "fadd a b = fl (a + b)"

definition fsub :: "real \<Rightarrow> real \<Rightarrow> real" where
  "fsub a b = fl (a - b)"

definition fmul :: "real \<Rightarrow> real \<Rightarrow> real" where
  "fmul a b = fl (a * b)"

text \<open>Python's \<^verbatim>\<open>/\<close> on floats raises \<^verbatim>\<open>ZeroDivisionError\<close> on a zero divisor.\<close>

definition fdiv :: "real \<Rightarrow> real \<Rightarrow> py_error + real" where
  "fdiv a b = (if b = 0 then Inl ZeroDivisionError else Inr (fl (a / b)))"

text \<open>\<^verbatim>\<open>sum(xs)\<close>: the items are added from left to right, starting from 0.\<close>

definition fsum :: "real list \<Rightarrow> real" where
  "fsum xs = foldl fadd 0 xs"

text \<open>
  A formula applied to every selection, from left to right; the first exception ends
  the computation.
\<close>

fun traverse :: "('a \<Rightarrow> py_error + 'b) \<Rightarrow> 'a list \<Rightarrow> py_error + 'b list" where
  "traverse f [] = Inr []"
| "traverse f (x # xs) =
     (case f x of
        Inl err \<Rightarrow> Inl err
      | Inr y \<Rightarrow> (case traverse f xs of Inl err \<Rightarrow> Inl err | Inr ys \<Rightarrow> Inr (y # ys)))"


section \<open>Odds normalisation, fair odds and edge (odds-normalisation document)\<close>

text \<open>Step 1: \<^verbatim>\<open>p = 1 / odds\<close>.\<close>

definition implied_probability :: "real \<Rightarrow> py_error + real" where
  "implied_probability odds = fdiv 1 odds"

text \<open>Step 2, simple normalisation: \<^verbatim>\<open>p_clean = p / sum(p_all_selections)\<close>.\<close>

definition remove_overround :: "real list \<Rightarrow> py_error + real list" where
  "remove_overround p_all_selections =
     (let total = fsum p_all_selections
      in traverse (\<lambda>p. fdiv p total) p_all_selections)"

text \<open>Step 3: \<^verbatim>\<open>odds_clean = 1 / p_clean\<close>.\<close>

definition odds_clean :: "real \<Rightarrow> py_error + real" where
  "odds_clean p_clean = fdiv 1 p_clean"

text \<open>Steps 1 and 2 on the decimal odds of all selections of one market.\<close>

definition normalize_market :: "real list \<Rightarrow> py_error + real list" where
  "normalize_market odds =
     (case traverse implied_probability odds of
        Inl err \<Rightarrow> Inl err
      | Inr p_all_selections \<Rightarrow> remove_overround p_all_selections)"

text \<open>Fair odds, \<^verbatim>\<open>EV0 = 1 / p\<close> (glossary and data dictionary).\<close>

definition EV0 :: "real \<Rightarrow> py_error + real" where
  "EV0 p = fdiv 1 p"

text \<open>\<^verbatim>\<open>edge_pct = (model_prob * bookmaker_odds) - 1\<close> (strategy document).\<close>

definition edge_pct :: "real \<Rightarrow> real \<Rightarrow> real" where
  "edge_pct model_prob bookmaker_odds = fsub (fmul model_prob bookmaker_odds) 1"

text \<open>\<^verbatim>\<open>edge = (odds_market_clean / EV0) - 1\<close>, the odds-ratio form.\<close>

definition edge_odds_ratio :: "real \<Rightarrow> real \<Rightarrow> py_error + real" where
  "edge_odds_ratio odds_market_clean ev0 =
     (case fdiv odds_market_clean ev0 of
        Inl err \<Rightarrow> Inl err
      | Inr ratio \<Rightarrow> Inr (fsub ratio 1))"


section \<open>Pricing: event probability, scenario mixture, override allocation\<close>

text \<open>
  Modelled from the spec: the pricing engine (\<^verbatim>\<open>backend/pricing\<close>) is not part of the
  repository. Both variants turn their Poisson rate into
  \<^verbatim>\<open>P(event >= 1) = 1 - e^{-lambda}\<close>; the dashboard's explanation line
  (lambda 0.47, probability 37.5 percent) follows the same formula.
\<close>

definition event_probability :: "real \<Rightarrow> real" where
  "event_probability lam = 1 - exp (- lam)"

text \<open>
  Modelled from the spec: the goalscorer rate is the sum of the open-play component and
  the penalty component (\<^verbatim>\<open>lambda_open_play\<close>, \<^verbatim>\<open>lambda_penalty\<close> of the pricing
  output contract).
\<close>

definition goalscorer_lambda :: "real \<Rightarrow> real \<Rightarrow> real" where
  "goalscorer_lambda lambda_open_play lambda_penalty = lambda_open_play + lambda_penalty"

datatype phase = EARLY | LINEUP









text \<open>
  Modelled from the spec: the override allocator is described in the modelling document
  without its formula; the spec gives
  \<^verbatim>\<open>lambda_i' = lambda_i * (override_total / sum(lambda_bottom_up))\<close>.
\<close>

definition override_scale :: "real \<Rightarrow> real list \<Rightarrow> real list" where
  "override_scale override_total lambdas =
     map (\<lambda>l. l * (override_total / sum_list lambdas)) lambdas"

text \<open>
  \<^verbatim>\<open>team_xg_override\<close> is null in automatic (bottom-up) mode, which leaves the
  player rates as they are.
\<close>

definition allocate_lambdas :: "real option \<Rightarrow> real list \<Rightarrow> real list" where
  "allocate_lambdas team_xg_override lambdas =
     (case team_xg_override of
        None \<Rightarrow> lambdas
      | Some override_total \<Rightarrow> override_scale override_total lambdas)"


section \<open>Exposure control\<close>

datatype decision_status = RECOMMENDED | REJECTED | EXECUTED

text \<open>A candidate bet: the match, the player, the day, the phase that produced it, its stake.\<close>

record bet =
  bet_fixture :: string
  bet_player :: string
  bet_day :: string
  bet_phase :: phase
  stake :: real

text \<open>A row of the trading log (\<^verbatim>\<open>decisions\<close>): \<^verbatim>\<open>rejection_reason\<close> is null if recommended.\<close>

record decision =
  candidate :: bet
  decided_stake :: real
  status :: decision_status
  rejection_reason :: "string option"

record exposure_caps =
  per_match :: real
  per_player :: real
  per_day :: real

text \<open>The limits of the strategy document: 4 units per match, 1.5 per player, 15 per day.\<close>

definition default_caps :: exposure_caps where
  "default_caps = \<lparr>per_match = 4, per_player = 3 / 2, per_day = 15\<rparr>"

definition exposure_of :: "(bet \<Rightarrow> bool) \<Rightarrow> bet list \<Rightarrow> real" where
  "exposure_of same accepted = (\<Sum>a\<leftarrow>filter same accepted. stake a)"

text \<open>
  Modelled from the spec: a candidate exceeds a cap when its stake added to the stakes
  already accepted for the same match, for the same player (whatever the phase), or on
  the same day goes over the limit.
\<close>

definition exceeds_cap :: "exposure_caps \<Rightarrow> bet list \<Rightarrow> bet \<Rightarrow> bool" where
  "exceeds_cap caps accepted b =
     (exposure_of (\<lambda>a. bet_fixture a = bet_fixture b) accepted + stake b > per_match caps \<or>
      exposure_of (\<lambda>a. bet_player a = bet_player b) accepted + stake b > per_player caps \<or>
      exposure_of (\<lambda>a. bet_day a = bet_day b) accepted + stake b > per_day caps)"

text \<open>
  Modelled from the spec: \<^verbatim>\<open>apply_exposure_caps\<close> is called by \<^verbatim>\<open>select_bets\<close> but is
  not part of the repository. Candidates are taken in order against the bets already
  accepted (the log of both phases, then the candidates accepted before); a candidate
  over a cap is rejected with reason \<^verbatim>\<open>EXPOSURE_CAP\<close>, the others are recommended.
\<close>

fun apply_exposure_caps :: "exposure_caps \<Rightarrow> bet list \<Rightarrow> bet list \<Rightarrow> decision list" where
  "apply_exposure_caps caps accepted [] = []"
| "apply_exposure_caps caps accepted (b # bs) =
     (if exceeds_cap caps accepted b
      then \<lparr>candidate = b, decided_stake = stake b, status = REJECTED,
            rejection_reason = Some ''EXPOSURE_CAP''\<rparr>
             # apply_exposure_caps caps accepted bs
      else \<lparr>candidate = b, decided_stake = stake b, status = RECOMMENDED,
            rejection_reason = None\<rparr>
             # apply_exposure_caps caps (accepted @ [b]) bs)"

text \<open>The candidates recommended among the first \<open>i\<close> decisions.\<close>

definition accepted_before :: "decision list \<Rightarrow> nat \<Rightarrow> bet list" where
  "accepted_before ds i = map candidate (filter (\<lambda>d. status d = RECOMMENDED) (take i ds))"


section \<open>Backtest integrity\<close>

text \<open>Timestamps are UTC instants, modelled by integers (seconds).\<close>

record snapshot =
  as_of :: int

record decision_point =
  decision_timestamp :: int
  snapshots_used :: "snapshot list"

record window =
  train :: "int list"
  test :: "int list"

datatype backtest_error = LeakageViolation

text \<open>
  The query of the backtesting document:
  \<^verbatim>\<open>WHERE as_of_utc <= bet_timestamp\<close>.
\<close>

definition query_snapshots :: "snapshot list \<Rightarrow> int \<Rightarrow> snapshot list" where
  "query_snapshots db bet_timestamp = filter (\<lambda>s. as_of s \<le> bet_timestamp) db"

text \<open>
  The expanding walk-forward protocol of the backtesting document (train weeks 1 to 10,
  test week 11, expand, test week 12, and so on), on the timestamps of the data and the
  list of period boundaries: the training data of a window is everything before the
  boundary, its test data the period that follows.
\<close>

fun walk_forward :: "int list \<Rightarrow> int list \<Rightarrow> window list" where
  "walk_forward ts (b0 # b1 # bs) =
     \<lparr>train = filter (\<lambda>t. t < b0) ts, test = filter (\<lambda>t. b0 \<le> t \<and> t < b1) ts\<rparr>
       # walk_forward ts (b1 # bs)"
| "walk_forward ts bs = []"

definition no_look_ahead :: "decision_point \<Rightarrow> bool" where
  "no_look_ahead d = list_all (\<lambda>s. as_of s \<le> decision_timestamp d) (snapshots_used d)"

definition window_ok :: "window \<Rightarrow> bool" where
  "window_ok w = list_all (\<lambda>t. list_all (\<lambda>u. t < u) (test w)) (train w)"

text \<open>
  Modelled from the spec: a run leaks when a decision used a snapshot stamped after its
  decision timestamp, or when a window has a training timestamp that is not strictly
  before the earliest timestamp of its test data.
\<close>

definition leak :: "window list \<Rightarrow> decision_point list \<Rightarrow> bool" where
  "leak windows decisions =
     ((\<exists>d\<in>set decisions. \<exists>s\<in>set (snapshots_used d). decision_timestamp d < as_of s) \<or>
      (\<exists>w\<in>set windows. test w \<noteq> [] \<and> (\<exists>t\<in>set (train w). Min (set (test w)) \<le> t)))"

text \<open>
  Modelled from the spec: the backtest engine is not part of the repository. A run
  checks every window and every decision; on any violation it fails with
  \<^verbatim>\<open>LeakageViolation\<close> and produces no report at all, otherwise it produces the one
  report of the run.
\<close>

definition run_backtest ::
  "(decision_point list \<Rightarrow> 'r) \<Rightarrow> window list \<Rightarrow> decision_point list \<Rightarrow> backtest_error + 'r"
where
  "run_backtest report windows decisions =
     (if list_all window_ok windows \<and> list_all no_look_ahead decisions
      then Inr (report decisions)
      else Inl LeakageViolation)"


section \<open>Properties of the credential check\<close>

lemma js_or_unset [simp]: "js_or None d = d"
  by (simp add: js_or_def)

lemma js_or_empty [simp]: "js_or (Some []) d = d"
  by (simp add: js_or_def)

lemma js_or_set [simp]: "s \<noteq> [] \<Longrightarrow> js_or (Some s) d = s"
  by (simp add: js_or_def)

text \<open>
  Claim C10, as stated: a user is returned exactly when the supplied username and
  password equal the environment values, each replaced by \<^verbatim>\<open>'admin'\<close> when the
  variable is unset. This fails when a variable is set to the empty string: the code
  then falls back to \<^verbatim>\<open>'admin'\<close> as well, so the empty username is refused although
  it equals the environment value.
\<close>

theorem authorize_empty_env_counterexample:
  "spec_accepts [''ADMIN_USERNAME'' \<mapsto> '''']
       (Some \<lparr>username = Some '''', password = Some ''admin''\<rparr>) \<and>
   authorize [''ADMIN_USERNAME'' \<mapsto> '''']
       (Some \<lparr>username = Some '''', password = Some ''admin''\<rparr>) = None \<and>
   \<not> spec_accepts [''ADMIN_USERNAME'' \<mapsto> '''']
       (Some \<lparr>username = Some ''admin'', password = Some ''admin''\<rparr>) \<and>
   authorize [''ADMIN_USERNAME'' \<mapsto> '''']
       (Some \<lparr>username = Some ''admin'', password = Some ''admin''\<rparr>) = Some admin_user"
  by (simp add: spec_accepts_def spec_valid_def authorize_def opt_username_def
      opt_password_def)

text \<open>
  Claim C10, amended: a user object (always the fixed admin user) is returned exactly
  when credentials are supplied whose username equals the effective admin username and
  whose password equals the effective admin password, where the effective value is the
  environment variable, or \<^verbatim>\<open>'admin'\<close> when the variable is unset or empty; every
  other input, missing credentials included, yields \<^verbatim>\<open>null\<close>. With no environment
  configuration the pair admin/admin is accepted and nothing else is.
\<close>

theorem authorize_characterisation:
  "(authorize process_env credentials = Some u) =
     (u = admin_user \<and>
      (\<exists>c. credentials = Some c \<and>
           username c = Some (if process_env ''ADMIN_USERNAME'' = None \<or>
                                 process_env ''ADMIN_USERNAME'' = Some []
                              then ''admin'' else the (process_env ''ADMIN_USERNAME'')) \<and>
           password c = Some (if process_env ''ADMIN_PASSWORD'' = None \<or>
                                 process_env ''ADMIN_PASSWORD'' = Some []
                              then ''admin'' else the (process_env ''ADMIN_PASSWORD''))))
   \<and> (authorize process_env credentials = None \<or>
      authorize process_env credentials = Some admin_user)
   \<and> authorize process_env None = None
   \<and> (authorize Map.empty credentials = Some admin_user) =
       (credentials = Some \<lparr>username = Some ''admin'', password = Some ''admin''\<rparr>)
   \<and> (authorize Map.empty credentials = None) =
       (credentials \<noteq> Some \<lparr>username = Some ''admin'', password = Some ''admin''\<rparr>)"
proof -
  have eff: "js_or v ''admin'' = (if v = None \<or> v = Some [] then ''admin'' else the v)"
    for v
    by (cases v) (auto simp: js_or_def)
  have "(authorize process_env credentials = Some u) =
     (u = admin_user \<and>
      (\<exists>c. credentials = Some c \<and>
           username c = Some (js_or (process_env ''ADMIN_USERNAME'') ''admin'') \<and>
           password c = Some (js_or (process_env ''ADMIN_PASSWORD'') ''admin'')))"
    by (cases credentials)
       (auto simp: authorize_def opt_username_def opt_password_def Let_def)
  then have first: "(authorize process_env credentials = Some u) =
     (u = admin_user \<and>
      (\<exists>c. credentials = Some c \<and>
           username c = Some (if process_env ''ADMIN_USERNAME'' = None \<or>
                                 process_env ''ADMIN_USERNAME'' = Some []
                              then ''admin'' else the (process_env ''ADMIN_USERNAME'')) \<and>
           password c = Some (if process_env ''ADMIN_PASSWORD'' = None \<or>
                                 process_env ''ADMIN_PASSWORD'' = Some []
                              then ''admin'' else the (process_env ''ADMIN_PASSWORD''))))"
    by (simp only: eff)
  have second: "authorize e credentials = None \<or>
      authorize e credentials = Some admin_user" for e
    by (simp add: authorize_def Let_def)
  have third: "authorize process_env None = None"
    by (simp add: authorize_def opt_username_def Let_def)
  have fourth: "(authorize Map.empty credentials = Some admin_user) =
       (credentials = Some \<lparr>username = Some ''admin'', password = Some ''admin''\<rparr>)"
  proof (cases credentials)
    case None
    then show ?thesis by (simp add: authorize_def opt_username_def Let_def)
  next
    case (Some c)
    then show ?thesis
      by (cases c) (auto simp: authorize_def opt_username_def opt_password_def Let_def)
  qed
  have fifth: "(authorize Map.empty credentials = None) =
       (credentials \<noteq> Some \<lparr>username = Some ''admin'', password = Some ''admin''\<rparr>)"
    using fourth second [of Map.empty] by auto
  show ?thesis
    by (intro conjI first second third fourth fifth)
qed


section \<open>Properties of the selection loop\<close>

text \<open>
  What the loop does guarantee: a prediction that yields a bet has an edge of at least
  the minimum of its phase, at least 70 projected minutes in the EARLY phase, and is a
  confirmed starter in the LINEUP phase.
\<close>

lemma select_loop_kept:
  "b \<in> set (select_loop create_bet FLAT_UNIT odds phase preds) \<Longrightarrow>
   \<exists>pred \<in> set preds.
      b = create_bet pred (FLAT_UNIT * (if phase = ''EARLY'' then 75 / 100 else 1)) \<and>
      (if phase = ''EARLY'' then 5 / 100 else 3 / 100) \<le> edge pred \<and>
      (phase = ''EARLY'' \<longrightarrow> 70 \<le> projected_mins pred) \<and>
      (phase = ''LINEUP'' \<longrightarrow> is_confirmed_starter pred)"
  by (induction preds) (auto simp: Let_def split: if_splits)

lemma select_loop_ignores_odds:
  "select_loop create_bet FLAT_UNIT odds phase preds =
   select_loop create_bet FLAT_UNIT odds' phase preds"
  by (induction preds) (auto simp: Let_def)

text \<open>
  Claim C4: a candidate whose odds exceed the maximum of its phase (15.0 in EARLY, 12.0
  in LINEUP) must be filtered out whatever its edge. The loop never reads the odds: in
  the EARLY phase a prediction with 80 projected minutes, an edge of 10 percent and
  market odds of 20.0 becomes a bet at 0.75 units, and in the LINEUP phase a confirmed
  starter with an edge of 10 percent and odds of 20.0 becomes a bet at one unit.
\<close>

theorem select_bets_keeps_long_odds:
  "select_bets Pair 1 (\<lambda>bets. bets)
     [\<lparr>player_id = ''psg_mbappe_kylian'', projected_mins = 80,
       is_confirmed_starter = False, edge = 10 / 100\<rparr>]
     [''psg_mbappe_kylian'' \<mapsto> 20] ''EARLY''
   = [(\<lparr>player_id = ''psg_mbappe_kylian'', projected_mins = 80,
        is_confirmed_starter = False, edge = 10 / 100\<rparr>, 75 / 100)]
   \<and>
   select_bets Pair 1 (\<lambda>bets. bets)
     [\<lparr>player_id = ''psg_mbappe_kylian'', projected_mins = 90,
       is_confirmed_starter = True, edge = 10 / 100\<rparr>]
     [''psg_mbappe_kylian'' \<mapsto> 20] ''LINEUP''
   = [(\<lparr>player_id = ''psg_mbappe_kylian'', projected_mins = 90,
        is_confirmed_starter = True, edge = 10 / 100\<rparr>, 1)]"
  by (simp add: select_bets_def Let_def)


section \<open>Properties of the rounding\<close>

text \<open>The binary exponent brackets its argument.\<close>

lemma ilog2_bounds:
  assumes "0 < x"
  shows "2 powi (ilog2 x) \<le> x \<and> x < 2 powi (ilog2 x + 1)"
proof (cases "1 \<le> x")
  case True
  define n where "n = \<lfloor>x\<rfloor>"
  have n1: "1 \<le> n" using True by (simp add: n_def le_floor_iff)
  then have n0: "0 < n" by simp
  have b1: "1 \<le> bitlen n" using n0 bitlen_eq_zero_iff [of n] bitlen_nonneg [of n] by linarith
  have lo: "2 ^ nat (bitlen n - 1) \<le> n" and hi: "n < 2 ^ nat (bitlen n)"
    using bitlen_bounds [OF n0] by auto
  have e: "ilog2 x = bitlen n - 1" using True by (simp add: ilog2_def n_def)
  have p1: "(2::real) powi (bitlen n - 1) = 2 ^ nat (bitlen n - 1)"
    using b1 by (simp add: power_int_def)
  have p2: "(2::real) powi (bitlen n - 1 + 1) = 2 ^ nat (bitlen n)"
    using b1 by (simp add: power_int_def)
  have "real_of_int (2 ^ nat (bitlen n - 1)) \<le> real_of_int n"
    using lo by (simp only: of_int_le_iff)
  moreover have "real_of_int n \<le> x" unfolding n_def by (rule of_int_floor_le)
  moreover have "real_of_int (2 ^ nat (bitlen n - 1)) = 2 ^ nat (bitlen n - 1)" by simp
  ultimately have A: "(2::real) ^ nat (bitlen n - 1) \<le> x" by linarith
  have "n + 1 \<le> 2 ^ nat (bitlen n)" using hi by simp
  then have "real_of_int (n + 1) \<le> real_of_int (2 ^ nat (bitlen n))"
    by (simp only: of_int_le_iff)
  moreover have "x < real_of_int (n + 1)" unfolding n_def by linarith
  moreover have "real_of_int (2 ^ nat (bitlen n)) = 2 ^ nat (bitlen n)" by simp
  ultimately have B: "x < (2::real) ^ nat (bitlen n)" by linarith
  show ?thesis unfolding e p1 p2 using A B by simp
next
  case False
  define y where "y = 1 / x"
  define m where "m = \<lceil>y\<rceil>"
  define j where "j = bitlen (m - 1)"
  have y1: "1 < y" using False assms by (simp add: y_def)
  have m2: "2 \<le> m" using y1 unfolding m_def by linarith
  then have m0: "0 < m - 1" by simp
  have j1: "1 \<le> j"
    using m0 bitlen_eq_zero_iff [of "m - 1"] bitlen_nonneg [of "m - 1"] unfolding j_def
    by linarith
  have lo: "2 ^ nat (j - 1) \<le> m - 1" and hi: "m - 1 < 2 ^ nat j"
    using bitlen_bounds [OF m0] by (auto simp: j_def)
  have e: "ilog2 x = - j" using False by (simp add: ilog2_def j_def m_def y_def)
  have "m \<le> 2 ^ nat j" using hi by simp
  then have "real_of_int m \<le> real_of_int (2 ^ nat j)" by (simp only: of_int_le_iff)
  moreover have "y \<le> real_of_int m" unfolding m_def by (rule le_of_int_ceiling)
  moreover have "real_of_int (2 ^ nat j) = 2 ^ nat j" by simp
  ultimately have "y \<le> 2 ^ nat j" by linarith
  then have "1 / x \<le> 2 ^ nat j" by (simp add: y_def)
  then have "1 \<le> 2 ^ nat j * x" using assms by (simp add: field_simps)
  then have A: "1 / 2 ^ nat j \<le> x" by (simp add: field_simps)
  have "real_of_int (2 ^ nat (j - 1)) \<le> real_of_int (m - 1)"
    using lo by (simp only: of_int_le_iff)
  moreover have "real_of_int (m - 1) < y" unfolding m_def by linarith
  moreover have "real_of_int (2 ^ nat (j - 1)) = 2 ^ nat (j - 1)" by simp
  ultimately have "2 ^ nat (j - 1) < y" by linarith
  then have "2 ^ nat (j - 1) < 1 / x" by (simp add: y_def)
  then have "2 ^ nat (j - 1) * x < 1" using assms by (simp add: field_simps)
  then have B: "x < 1 / 2 ^ nat (j - 1)" by (simp add: field_simps)
  have p1: "(2::real) powi (- j) = 1 / 2 ^ nat j"
    using j1 by (simp add: power_int_def field_simps)
  have p2: "(2::real) powi (- j + 1) = 1 / 2 ^ nat (j - 1)"
  proof (cases "j = 1")
    case True
    then show ?thesis by simp
  next
    case False
    then have "- j + 1 < 0" using j1 by simp
    moreover have "nat (- (- j + 1)) = nat (j - 1)" by simp
    ultimately show ?thesis by (simp add: power_int_def field_simps)
  qed
  show ?thesis unfolding e p1 p2 using A B by simp
qed

lemma ilog2_unique:
  assumes "0 < x" and "2 powi e \<le> x" and "x < 2 powi (e + 1)"
  shows "ilog2 x = e"
proof -
  have b: "2 powi (ilog2 x) \<le> x" "x < 2 powi (ilog2 x + 1)"
    using ilog2_bounds [OF assms(1)] by auto
  have "\<not> ilog2 x < e"
  proof
    assume "ilog2 x < e"
    then have "ilog2 x + 1 \<le> e" by simp
    then have "(2::real) powi (ilog2 x + 1) \<le> 2 powi e"
      by (intro power_int_increasing) auto
    then show False using b(2) assms(2) by linarith
  qed
  moreover have "\<not> e < ilog2 x"
  proof
    assume "e < ilog2 x"
    then have "e + 1 \<le> ilog2 x" by simp
    then have "(2::real) powi (e + 1) \<le> 2 powi (ilog2 x)"
      by (intro power_int_increasing) auto
    then show False using b(1) assms(3) by linarith
  qed
  ultimately show ?thesis by linarith
qed

text \<open>Rounding to an integer moves a number by at most one half.\<close>

lemma round_half_even_error: "\<bar>of_int (round_half_even m) - m\<bar> \<le> 1 / 2"
proof -
  have "of_int \<lfloor>m\<rfloor> \<le> m" "m < of_int \<lfloor>m\<rfloor> + 1" by linarith+
  then show ?thesis
    by (auto simp: round_half_even_def Let_def abs_le_iff)
qed

lemma round_half_even_nonneg: "0 \<le> m \<Longrightarrow> 0 \<le> round_half_even m"
  by (auto simp: round_half_even_def Let_def)

lemma round_half_even_unique:
  assumes "\<bar>m - of_int n\<bar> < 1 / 2"
  shows "round_half_even m = n"
proof -
  have f: "of_int \<lfloor>m\<rfloor> \<le> m" "m < of_int \<lfloor>m\<rfloor> + 1" by linarith+
  have m: "of_int n - 1 / 2 < m" "m < of_int n + 1 / 2" using assms by linarith+
  have "\<lfloor>m\<rfloor> = n \<or> \<lfloor>m\<rfloor> = n - 1"
  proof -
    have "real_of_int \<lfloor>m\<rfloor> < of_int n + 1 / 2" using f(1) m(2) by linarith
    then have "real_of_int \<lfloor>m\<rfloor> < of_int (n + 1)" by simp
    then have 1: "\<lfloor>m\<rfloor> < n + 1" by (simp only: of_int_less_iff)
    have "real_of_int n - 3 / 2 < of_int \<lfloor>m\<rfloor>" using f(2) m(1) by linarith
    then have "real_of_int (n - 2) < of_int \<lfloor>m\<rfloor>" by simp
    then have 2: "n - 2 < \<lfloor>m\<rfloor>" by (simp only: of_int_less_iff)
    show ?thesis using 1 2 by linarith
  qed
  then show ?thesis
  proof
    assume e: "\<lfloor>m\<rfloor> = n"
    then have "m - of_int \<lfloor>m\<rfloor> < 1 / 2" using m(2) by simp
    then show ?thesis using e by (simp add: round_half_even_def Let_def)
  next
    assume e: "\<lfloor>m\<rfloor> = n - 1"
    then have "1 / 2 < m - of_int \<lfloor>m\<rfloor>" using m(1) by simp
    then show ?thesis using e by (simp add: round_half_even_def Let_def)
  qed
qed

lemma round_half_even_tie:
  assumes "\<bar>m - of_int n\<bar> = 1 / 2" and "even n"
  shows "round_half_even m = n"
proof -
  consider "m = of_int n + 1 / 2" | "m = of_int n - 1 / 2" using assms(1) by (auto simp: abs_if split: if_splits) 
  then show ?thesis
  proof cases
    case 1
    have "\<lfloor>m\<rfloor> = n" unfolding 1 by linarith
    then show ?thesis using 1 assms(2) by (simp add: round_half_even_def Let_def)
  next
    case 2
    have "m = of_int (n - 1) + 1 / 2" unfolding 2 by simp
    then have f: "\<lfloor>m\<rfloor> = n - 1" by linarith
    have "odd (n - 1)" using assms(2) by simp
    then show ?thesis using 2 f by (simp add: round_half_even_def Let_def)
  qed
qed

lemma quantum_pos: "0 < quantum x"
  by (simp add: quantum_def)

lemma fl_0 [simp]: "fl 0 = 0"
  by (simp add: fl_def)

lemma fl_nonneg: "0 \<le> x \<Longrightarrow> 0 \<le> fl x"
  using quantum_pos [of x]
  by (auto simp: fl_def intro!: mult_nonneg_nonneg round_half_even_nonneg)

text \<open>
  The rounding error: half a spacing; at most the fraction \<open>2\<^sup>-\<^sup>5\<^sup>3\<close> of a normal
  number, and at most \<open>2\<^sup>-\<^sup>1\<^sup>0\<^sup>7\<^sup>5\<close> below the normal range.
\<close>

lemma fl_error_quantum: "\<bar>fl x - x\<bar> \<le> quantum x / 2"
proof (cases "x = 0")
  case True
  then show ?thesis using quantum_pos [of 0] by simp
next
  case False
  define q where "q = quantum x"
  define n where "n = round_half_even (\<bar>x\<bar> / q)"
  have q: "0 < q" by (simp add: q_def quantum_pos)
  have f: "fl x = sgn x * (of_int n * q)" using False by (simp add: fl_def n_def q_def)
  have x: "x = sgn x * \<bar>x\<bar>" by (simp add: sgn_mult_abs)
  have "fl x - x = sgn x * (of_int n * q - \<bar>x\<bar>)"
    using f x by (metis right_diff_distrib)
  then have "\<bar>fl x - x\<bar> = \<bar>of_int n * q - \<bar>x\<bar>\<bar>"
    using False by (simp add: abs_mult abs_sgn_eq)
  also have "of_int n * q - \<bar>x\<bar> = (of_int n - \<bar>x\<bar> / q) * q"
    using q by (simp add: field_simps)
  also have "\<bar>(of_int n - \<bar>x\<bar> / q) * q\<bar> = \<bar>of_int n - \<bar>x\<bar> / q\<bar> * q"
    using q by (simp add: abs_mult)
  also have "\<dots> \<le> (1 / 2) * q"
    using round_half_even_error [of "\<bar>x\<bar> / q"] q unfolding n_def
    by (intro mult_right_mono) auto
  finally show ?thesis by (simp add: q_def)
qed

lemma quantum_normal:
  assumes "2 powi (- 1022) \<le> \<bar>x\<bar>"
  shows "quantum x \<le> \<bar>x\<bar> / 2 ^ 52"
proof -
  have x0: "0 < \<bar>x\<bar>" using assms zero_less_power_int [of "2::real" "- 1022"] by linarith
  have b: "2 powi (ilog2 \<bar>x\<bar>) \<le> \<bar>x\<bar>" "\<bar>x\<bar> < 2 powi (ilog2 \<bar>x\<bar> + 1)"
    using ilog2_bounds [OF x0] by auto
  have "- 1022 \<le> ilog2 \<bar>x\<bar>"
  proof (rule ccontr)
    assume "\<not> - 1022 \<le> ilog2 \<bar>x\<bar>"
    then have "ilog2 \<bar>x\<bar> + 1 \<le> - 1022" by simp
    then have "(2::real) powi (ilog2 \<bar>x\<bar> + 1) \<le> 2 powi (- 1022)"
      by (intro power_int_increasing) auto
    then show False using b(2) assms by linarith
  qed
  then have "quantum x = 2 powi (ilog2 \<bar>x\<bar> - 52)" by (simp add: quantum_def max_def)
  also have "\<dots> = 2 powi (ilog2 \<bar>x\<bar>) / 2 ^ 52"
    by (simp add: power_int_diff)
  also have "\<dots> \<le> \<bar>x\<bar> / 2 ^ 52" using b(1) by (simp add: divide_right_mono)
  finally show ?thesis .
qed

lemma fl_error_normal:
  assumes "2 powi (- 1022) \<le> \<bar>x\<bar>"
  shows "\<bar>fl x - x\<bar> \<le> \<bar>x\<bar> / 2 ^ 53"
proof -
  have "\<bar>fl x - x\<bar> \<le> quantum x / 2" by (rule fl_error_quantum)
  also have "\<dots> \<le> (\<bar>x\<bar> / 2 ^ 52) / 2" using quantum_normal [OF assms] by simp
  finally show ?thesis by simp
qed

lemma fl_error:
  "\<bar>fl x - x\<bar> \<le> \<bar>x\<bar> / 2 ^ 53 + 2 powi (- 1075)"
proof -
  have p: "0 \<le> (2::real) powi (- 1075)" by simp
  consider "x = 0" | "2 powi (- 1022) \<le> \<bar>x\<bar>" | "x \<noteq> 0" "\<not> 2 powi (- 1022) \<le> \<bar>x\<bar>"
    by blast
  then show ?thesis
  proof cases
    case 1
    then show ?thesis using p by simp
  next
    case 2
    then show ?thesis using fl_error_normal [OF 2] p by linarith
  next
    case 3
    then have x0: "0 < \<bar>x\<bar>" by simp
    have "ilog2 \<bar>x\<bar> \<le> - 1022"
    proof (rule ccontr)
      assume "\<not> ilog2 \<bar>x\<bar> \<le> - 1022"
      then have "- 1022 \<le> ilog2 \<bar>x\<bar>" by simp
      then have "(2::real) powi (- 1022) \<le> 2 powi (ilog2 \<bar>x\<bar>)"
        by (intro power_int_increasing) auto
      then show False using ilog2_bounds [OF x0] 3(2) by linarith
    qed
    then have "quantum x = 2 powi (- 1022 - 52)" by (simp add: quantum_def max_def)
    then have q: "quantum x = 2 powi (- 1074)" by simp
    have "(2::real) powi (- 1074) / 2 = 2 powi (- 1075)"
      by (simp add: power_int_minus field_simps)
    then have "quantum x / 2 = 2 powi (- 1075)" using q by simp
    moreover have "0 \<le> \<bar>x\<bar> / 2 ^ 53" by simp
    ultimately show ?thesis using fl_error_quantum [of x] by linarith
  qed
qed

lemma fl_error_pos:
  assumes "2 powi (- 1022) \<le> x"
  shows "\<bar>fl x - x\<bar> \<le> x * (1 / 2 ^ 53)"
proof -
  have x0: "0 < x" using assms zero_less_power_int [of "2::real" "- 1022"] by linarith
  then have "2 powi (- 1022) \<le> \<bar>x\<bar>" using assms by simp
  then have "\<bar>fl x - x\<bar> \<le> \<bar>x\<bar> / 2 ^ 53" by (rule fl_error_normal)
  then show ?thesis using x0 by simp
qed

lemma rel_bounds:
  fixes x y e :: real
  assumes "\<bar>y - x\<bar> \<le> x * e"
  shows "(1 - e) * x \<le> y \<and> y \<le> (1 + e) * x"
proof -
  have eqs: "(1 - e) * x = x - x * e" "(1 + e) * x = x + x * e"
    by (simp_all add: algebra_simps)
  show ?thesis unfolding eqs using assms by linarith
qed

lemma fl_rel_bounds:
  assumes "2 powi (- 1022) \<le> x"
  shows "(1 - 1 / 2 ^ 53) * x \<le> fl x \<and> fl x \<le> (1 + 1 / 2 ^ 53) * x"
proof -
  have x0: "0 < x" using assms zero_less_power_int [of "2::real" "- 1022"] by linarith
  then have "2 powi (- 1022) \<le> \<bar>x\<bar>" using assms by simp
  then have "\<bar>fl x - x\<bar> \<le> \<bar>x\<bar> / 2 ^ 53" by (rule fl_error_normal)
  then have "\<bar>fl x - x\<bar> \<le> x * (1 / 2 ^ 53)" using x0 by simp
  then show ?thesis by (rule rel_bounds)
qed

lemma fl_half_twice:
  assumes "2 powi (- 1022) \<le> x"
  shows "x / 2 \<le> fl x \<and> fl x \<le> 2 * x"
proof -
  have x0: "0 \<le> x" using assms zero_less_power_int [of "2::real" "- 1022"] by linarith
  have b: "(1 - 1 / 2 ^ 53) * x \<le> fl x" "fl x \<le> (1 + 1 / 2 ^ 53) * x"
    using fl_rel_bounds [OF assms] by auto
  have "(1 / 2) * x \<le> (1 - 1 / 2 ^ 53) * x" using x0 by (intro mult_right_mono) auto
  moreover have "(1 + 1 / 2 ^ 53) * x \<le> 2 * x" using x0 by (intro mult_right_mono) auto
  ultimately show ?thesis using b by linarith
qed

lemma tiny_le: "(2::real) powi (- 1075) \<le> 1 / 10 ^ 300"
  by (simp add: power_int_minus field_simps)

lemma one_normal: "(2::real) powi (- 1022) \<le> 1"
  by (simp add: power_int_minus field_simps)

lemma fl_error_bounded:
  assumes "\<bar>x\<bar> \<le> 1000002"
  shows "\<bar>fl x - x\<bar> \<le> 13 / 100000000000"
proof -
  have "\<bar>fl x - x\<bar> \<le> \<bar>x\<bar> / 2 ^ 53 + 2 powi (- 1075)" by (rule fl_error)
  also have "\<bar>x\<bar> / 2 ^ 53 \<le> 1000002 / 2 ^ 53" using assms by (simp add: divide_right_mono)
  also have "1000002 / 2 ^ 53 + 2 powi (- 1075) \<le> (13 / 100000000000 :: real)"
    using tiny_le by simp
  finally show ?thesis by simp
qed

lemma fl_close:
  assumes "\<bar>x\<bar> \<le> 1000002"
  shows "x - 13 / 100000000000 \<le> fl x \<and> fl x \<le> x + 13 / 100000000000"
  using fl_error_bounded [OF assms] by linarith

text \<open>
  How a rounding is evaluated at a concrete number: the exponent \<open>e\<close> and the integer
  \<open>n\<close> of the result \<open>n * 2\<^sup>e\<^sup>-\<^sup>5\<^sup>2\<close> are given, and checked by the side conditions.
\<close>

lemma fl_eqI:
  assumes "0 < x" and "2 powi e \<le> x" and "x < 2 powi (e + 1)" and "- 1022 \<le> e"
    and "\<bar>x / 2 powi (e - 52) - of_int n\<bar> < 1 / 2"
  shows "fl x = of_int n * 2 powi (e - 52)"
proof -
  have a: "\<bar>x\<bar> = x" using assms(1) by simp
  have "ilog2 \<bar>x\<bar> = e" unfolding a using assms(1-3) by (rule ilog2_unique)
  then have q: "quantum x = 2 powi (e - 52)" using assms(4) by (simp add: quantum_def max_def)
  have "round_half_even (\<bar>x\<bar> / quantum x) = n"
    unfolding a q using assms(5) by (rule round_half_even_unique)
  then show ?thesis using assms(1) q by (simp add: fl_def)
qed

lemma fl_eqI_tie:
  assumes "0 < x" and "2 powi e \<le> x" and "x < 2 powi (e + 1)" and "- 1022 \<le> e"
    and "\<bar>x / 2 powi (e - 52) - of_int n\<bar> = 1 / 2" and "even n"
  shows "fl x = of_int n * 2 powi (e - 52)"
proof -
  have a: "\<bar>x\<bar> = x" using assms(1) by simp
  have "ilog2 \<bar>x\<bar> = e" unfolding a using assms(1-3) by (rule ilog2_unique)
  then have q: "quantum x = 2 powi (e - 52)" using assms(4) by (simp add: quantum_def max_def)
  have "round_half_even (\<bar>x\<bar> / quantum x) = n"
    unfolding a q using assms(5,6) by (rule round_half_even_tie)
  then show ?thesis using assms(1) q by (simp add: fl_def)
qed



section \<open>Properties of the edge\<close>

text \<open>
  The two forms of the edge on the double nearest 0.9 and the odd 123456789.0: the
  product, the fair odds, the quotient and the two subtractions, each rounded.
\<close>

lemma big_odds_product: "fmul (8106479329266893 / 9007199254740992) 123456789 = 7456540376589927 / 67108864"
  unfolding fmul_def by (rule trans [OF fl_eqI [where e = "26" and n = 7456540376589927]]) simp_all

lemma big_odds_edge_pct: "edge_pct (8106479329266893 / 9007199254740992) 123456789 = 7456540309481063 / 67108864"
proof -
  have "fl ((7456540376589927 / 67108864) - 1) = 7456540309481063 / 67108864"
    by (rule trans [OF fl_eqI [where e = "26" and n = 7456540309481063]]) simp_all
  then show ?thesis unfolding edge_pct_def big_odds_product fsub_def .
qed

lemma big_odds_fair_odds: "EV0 (8106479329266893 / 9007199254740992) = Inr (2501999792983609 / 2251799813685248)"
proof -
  have "fl (1 / (8106479329266893 / 9007199254740992)) = 2501999792983609 / 2251799813685248"
    by (rule trans [OF fl_eqI [where e = "0" and n = 5003999585967218]]) simp_all
  then show ?thesis by (simp add: EV0_def fdiv_def)
qed

lemma big_odds_edge_ratio: "edge_odds_ratio 123456789 (2501999792983609 / 2251799813685248) = Inr (3728270154740531 / 33554432)"
proof -
  have q: "fl (123456789 / (2501999792983609 / 2251799813685248)) = 3728270188294963 / 33554432"
    by (rule trans [OF fl_eqI [where e = "26" and n = 7456540376589926]]) simp_all
  have s: "fl ((3728270188294963 / 33554432) - 1) = 3728270154740531 / 33554432"
    by (rule trans [OF fl_eqI [where e = "26" and n = 7456540309481062]]) simp_all
  have "fdiv 123456789 (2501999792983609 / 2251799813685248) = Inr (3728270188294963 / 33554432)" using q by (simp add: fdiv_def)
  then show ?thesis unfolding edge_odds_ratio_def fsub_def using s by simp
qed

text \<open>
  Claim C1, as stated: for every model probability \<open>0 < p \<le> 1\<close> and every market odd
  \<open>o > 0\<close> the probability form \<open>p * o - 1\<close> and the odds-ratio form \<open>o / (1 / p) - 1\<close>
  agree within \<open>10\<^sup>-\<^sup>9\<close>. In double arithmetic this fails for large odds: at \<open>p = 0.9\<close>
  and \<open>o = 123456789.0\<close> the first form gives 111111109.10000001 and the second
  111111109.1, which differ by about \<open>1.5 * 10\<^sup>-\<^sup>8\<close>.
\<close>

theorem edge_forms_differ_counterexample:
  "(0 :: real) < 8106479329266893 / 9007199254740992 \<and>
   (8106479329266893 / 9007199254740992 :: real) \<le> 1 \<and>
   EV0 (8106479329266893 / 9007199254740992) = Inr (2501999792983609 / 2251799813685248) \<and>
   edge_odds_ratio 123456789 (2501999792983609 / 2251799813685248) = Inr (3728270154740531 / 33554432) \<and>
   edge_pct (8106479329266893 / 9007199254740992) 123456789 = 7456540309481063 / 67108864 \<and>
   \<not> \<bar>7456540309481063 / 67108864 - 3728270154740531 / 33554432\<bar> \<le> (1 / 10 ^ 9 :: real)"
proof -
  have c1: "(0 :: real) < 8106479329266893 / 9007199254740992" by simp
  have c2: "(8106479329266893 / 9007199254740992 :: real) \<le> 1" by simp
  have c3: "\<not> \<bar>7456540309481063 / 67108864 - 3728270154740531 / 33554432\<bar> \<le> (1 / 10 ^ 9 :: real)"
    by simp
  show ?thesis
    by (intro conjI c1 c2 big_odds_fair_odds big_odds_edge_ratio big_odds_edge_pct c3)
qed

text \<open>
  Claim C1, amended: for every model probability \<open>p\<close> from the smallest normal double
  \<open>2\<^sup>-\<^sup>1\<^sup>0\<^sup>2\<^sup>2\<close> up to 1 and every market odd \<open>0 < o \<le> 10\<^sup>6\<close>, the fair odds \<open>1 / p\<close> and
  the odds-ratio form are computed without exception, and the probability form
  \<open>p * o - 1\<close> and the odds-ratio form \<open>o / (1 / p) - 1\<close> agree within \<open>10\<^sup>-\<^sup>9\<close>; no
  intermediate result leaves the range of the doubles.
\<close>

theorem edge_forms_agree_in_doubles:
  assumes "2 powi (- 1022) \<le> p" and "p \<le> 1" and "0 < odds" and "odds \<le> 10 ^ 6"
  shows "\<exists>ev0 e. EV0 p = Inr ev0 \<and> edge_odds_ratio odds ev0 = Inr e \<and>
           \<bar>edge_pct p odds - e\<bar> \<le> 1 / 10 ^ 9 \<and>
           ev0 \<le> 2 ^ 1023 \<and> fmul p odds \<le> 10 ^ 6 + 1"
proof -
  define u :: real where "u = 1 / 2 ^ 53"
  define t where "t = p * odds"
  define r where "r = fl (1 / p)"
  define q where "q = odds / r"
  define a where "a = fl t"
  define b where "b = fl q"
  have p0: "0 < p" using assms(1) zero_less_power_int [of "2::real" "- 1022"] by linarith
  have u: "0 < u" "u \<le> 12 / 100000000000000000" by (simp_all add: u_def)
  have o6: "odds \<le> 1000000" using assms(4) by simp
  have t: "0 < t" "t \<le> 1000000"
  proof -
    show "0 < t" using p0 assms(3) by (simp add: t_def)
    have "p * odds \<le> 1 * 1000000" using assms(2,3) o6 p0 by (intro mult_mono) auto
    then show "t \<le> 1000000" by (simp add: t_def)
  qed
  have ip: "1 \<le> 1 / p" using p0 assms(2) by simp
  then have "2 powi (- 1022) \<le> \<bar>1 / p\<bar>" using one_normal by linarith
  then have "\<bar>r - 1 / p\<bar> \<le> \<bar>1 / p\<bar> / 2 ^ 53" unfolding r_def by (rule fl_error_normal)
  then have rerr: "\<bar>r - 1 / p\<bar> \<le> (1 / p) * u" using p0 by (simp add: u_def)
  define w where "w = r * p"
  have "\<bar>r - 1 / p\<bar> * p \<le> ((1 / p) * u) * p" using rerr p0 by (intro mult_right_mono) auto
  moreover have "\<bar>r - 1 / p\<bar> * p = \<bar>w - 1\<bar>"
  proof -
    have "\<bar>r - 1 / p\<bar> * p = \<bar>(r - 1 / p) * p\<bar>" using p0 by (simp add: abs_mult)
    also have "(r - 1 / p) * p = w - 1" using p0 by (simp add: w_def field_simps)
    finally show ?thesis .
  qed
  ultimately have w: "\<bar>w - 1\<bar> \<le> u" using p0 by simp
  have w1: "1 - u \<le> w" "w \<le> 1 + u" using w by linarith+
  have w0: "0 < w" using w1 u by linarith
  have r0: "0 < r" using w0 p0 by (simp add: w_def zero_less_mult_iff)
  have ev0: "EV0 p = Inr r" using p0 by (simp add: EV0_def fdiv_def r_def)
  have r_le: "r \<le> 2 ^ 1023"
  proof -
    have "1 / p \<le> 2 ^ 1022"
    proof -
      have "(2::real) powi (- 1022) = 1 / 2 ^ 1022" by (simp add: power_int_minus field_simps)
      then have "1 / 2 ^ 1022 \<le> p" using assms(1) by simp
      then show ?thesis using p0 by (simp add: field_simps)
    qed
    moreover have "r \<le> (1 / p) * (1 + u)"
    proof -
      have "r \<le> 1 / p + (1 / p) * u" using rerr by linarith
      also have "\<dots> = (1 / p) * (1 + u)" by (simp only: distrib_left mult_1_right)
      finally show ?thesis .
    qed
    moreover have "(1 / p) * (1 + u) \<le> (1 / p) * 2" using ip u p0 by (intro mult_left_mono) auto
    ultimately have "r \<le> 2 ^ 1022 * 2" by linarith
    then show ?thesis by simp
  qed
  have qw: "q * w = t" using r0 by (simp add: q_def w_def t_def field_simps)
  have q0: "0 < q" using r0 assms(3) by (simp add: q_def)
  have "q * (1 - u) \<le> q * w" using w1 q0 by (intro mult_left_mono) auto
  then have "q * (1 - u) \<le> 1000000" using qw t by linarith
  moreover have "q * (1 - u) = q - q * u" by (simp add: algebra_simps)
  moreover have "q * u \<le> q * (12 / 100000000000000000)" using u q0 by (intro mult_left_mono) auto
  ultimately have q_le: "q \<le> 1000001" by linarith
  have w': "\<bar>1 - w\<bar> \<le> 12 / 100000000000000000" using w u(2) by linarith
  have "q - t = q * (1 - w)" using qw by (simp add: algebra_simps)
  then have "\<bar>q - t\<bar> = q * \<bar>1 - w\<bar>" using q0 by (simp add: abs_mult)
  also have "\<dots> \<le> 1000001 * (12 / 100000000000000000)"
    using q_le q0 w' by (intro mult_mono) auto
  finally have qt: "\<bar>q - t\<bar> \<le> 13 / 100000000000" by simp
  have at: "\<bar>a - t\<bar> \<le> 13 / 100000000000" unfolding a_def using t by (intro fl_error_bounded) auto
  have bq: "\<bar>b - q\<bar> \<le> 13 / 100000000000"
    unfolding b_def using q0 q_le by (intro fl_error_bounded) auto
  have a0: "0 \<le> a" unfolding a_def using t by (intro fl_nonneg) auto
  have b0: "0 \<le> b" unfolding b_def using q0 by (intro fl_nonneg) auto
  have a1: "a \<le> 1000001" using at t by linarith
  have b1: "b \<le> 1000002" using bq q_le by linarith
  have ea: "\<bar>fl (a - 1) - (a - 1)\<bar> \<le> 13 / 100000000000"
    using a0 a1 by (intro fl_error_bounded) linarith
  have eb: "\<bar>fl (b - 1) - (b - 1)\<bar> \<le> 13 / 100000000000"
    using b0 b1 by (intro fl_error_bounded) linarith
  have e1: "edge_pct p odds = fl (a - 1)"
    by (simp add: edge_pct_def fsub_def fmul_def a_def t_def)
  have e2: "edge_odds_ratio odds r = Inr (fl (b - 1))"
    using r0 by (simp add: edge_odds_ratio_def fdiv_def fsub_def b_def q_def)
  have "\<bar>fl (a - 1) - fl (b - 1)\<bar> \<le> 65 / 100000000000"
    using at bq qt ea eb by linarith
  then have close: "\<bar>fl (a - 1) - fl (b - 1)\<bar> \<le> 1 / 10 ^ 9" by simp
  have fm: "fmul p odds \<le> 10 ^ 6 + 1" using a1 by (simp add: fmul_def a_def t_def)
  show ?thesis using ev0 e1 e2 r_le close fm by auto
qed

text \<open>
  The theorem at the values of the pricing output contract, model probability 0.485 and
  odds 2.30 (the doubles nearest to them).
\<close>

lemma contract_product: "fmul (4368491638549381 / 9007199254740992) (2589569785738035 / 1125899906842624) = 1255941346082947 / 1125899906842624"
  unfolding fmul_def by (rule trans [OF fl_eqI [where e = "0" and n = 5023765384331788]]) simp_all

lemma contract_edge_pct: "edge_pct (4368491638549381 / 9007199254740992) (2589569785738035 / 1125899906842624) = 130041439240323 / 1125899906842624"
proof -
  have "fl ((1255941346082947 / 1125899906842624) - 1) = 130041439240323 / 1125899906842624"
    by (rule trans [OF fl_eqI [where e = "- 4" and n = 8322652111380672]]) simp_all
  then show ?thesis unfolding edge_pct_def contract_product fsub_def .
qed

lemma contract_fair_odds: "EV0 (4368491638549381 / 9007199254740992) = Inr (4642886213784017 / 2251799813685248)"
proof -
  have "fl (1 / (4368491638549381 / 9007199254740992)) = 4642886213784017 / 2251799813685248"
    by (rule trans [OF fl_eqI [where e = "1" and n = 4642886213784017]]) simp_all
  then show ?thesis by (simp add: EV0_def fdiv_def)
qed

lemma contract_edge_ratio: "edge_odds_ratio (2589569785738035 / 1125899906842624) (4642886213784017 / 2251799813685248) = Inr (520165756961291 / 4503599627370496)"
proof -
  have q: "fl ((2589569785738035 / 1125899906842624) / (4642886213784017 / 2251799813685248)) = 5023765384331787 / 4503599627370496"
    by (rule trans [OF fl_eqI [where e = "0" and n = 5023765384331787]]) simp_all
  have s: "fl ((5023765384331787 / 4503599627370496) - 1) = 520165756961291 / 4503599627370496"
    by (rule trans [OF fl_eqI [where e = "- 4" and n = 8322652111380656]]) simp_all
  have "fdiv (2589569785738035 / 1125899906842624) (4642886213784017 / 2251799813685248) = Inr (5023765384331787 / 4503599627370496)" using q by (simp add: fdiv_def)
  then show ?thesis unfolding edge_odds_ratio_def fsub_def using s by simp
qed

theorem edge_forms_agree_in_doubles_witness:
  "2 powi (- 1022) \<le> (4368491638549381 / 9007199254740992 :: real) \<and>
   (4368491638549381 / 9007199254740992 :: real) \<le> 1 \<and>
   (0 :: real) < 2589569785738035 / 1125899906842624 \<and>
   (2589569785738035 / 1125899906842624 :: real) \<le> 10 ^ 6 \<and>
   EV0 (4368491638549381 / 9007199254740992) = Inr (4642886213784017 / 2251799813685248) \<and>
   edge_odds_ratio (2589569785738035 / 1125899906842624) (4642886213784017 / 2251799813685248) = Inr (520165756961291 / 4503599627370496) \<and>
   \<bar>edge_pct (4368491638549381 / 9007199254740992) (2589569785738035 / 1125899906842624) - 520165756961291 / 4503599627370496\<bar> \<le> 1 / 10 ^ 9"
proof -
  have h1: "2 powi (- 1022) \<le> (4368491638549381 / 9007199254740992 :: real)"
    by (simp add: power_int_minus field_simps)
  have h2: "(4368491638549381 / 9007199254740992 :: real) \<le> 1" by simp
  have h3: "(0 :: real) < 2589569785738035 / 1125899906842624" by simp
  have h4: "(2589569785738035 / 1125899906842624 :: real) \<le> 10 ^ 6" by simp
  obtain ev0 e where r: "EV0 (4368491638549381 / 9007199254740992) = Inr ev0"
      "edge_odds_ratio (2589569785738035 / 1125899906842624) ev0 = Inr e"
      "\<bar>edge_pct (4368491638549381 / 9007199254740992) (2589569785738035 / 1125899906842624) - e\<bar> \<le> 1 / 10 ^ 9"
    using edge_forms_agree_in_doubles [OF h1 h2 h3 h4] by blast
  have ev: "4642886213784017 / 2251799813685248 = ev0"
    using r(1) unfolding contract_fair_odds by (simp only: sum.inject)
  have "edge_odds_ratio (2589569785738035 / 1125899906842624) (4642886213784017 / 2251799813685248) = Inr e"
    using r(2) unfolding ev [symmetric] .
  then have ee: "520165756961291 / 4503599627370496 = e"
    unfolding contract_edge_ratio by (simp only: sum.inject)
  have "\<bar>edge_pct (4368491638549381 / 9007199254740992) (2589569785738035 / 1125899906842624) - 520165756961291 / 4503599627370496\<bar> \<le> 1 / 10 ^ 9"
    using r(3) unfolding ee [symmetric] .
  then show ?thesis
    by (intro conjI h1 h2 h3 h4 contract_fair_odds contract_edge_ratio)
qed


section \<open>Properties of margin removal\<close>

lemma traverse_total:
  "(\<And>x. x \<in> set xs \<Longrightarrow> f x = Inr (g x)) \<Longrightarrow> traverse f xs = Inr (map g xs)"
  by (induction xs) simp_all

lemma foldl_fadd_bounds:
  assumes "0 \<le> acc" and "\<forall>x\<in>set xs. 2 powi (- 1022) \<le> x"
  shows "(1 - 1 / 2 ^ 53) ^ length xs * (acc + sum_list xs) \<le> foldl fadd acc xs \<and>
         foldl fadd acc xs \<le> (1 + 1 / 2 ^ 53) ^ length xs * (acc + sum_list xs)"
  using assms
proof (induction xs arbitrary: acc)
  case Nil
  then show ?case by simp
next
  case (Cons x xs)
  define lo :: real where "lo = 1 - 1 / 2 ^ 53"
  define hi :: real where "hi = 1 + 1 / 2 ^ 53"
  define n where "n = length xs"
  define s where "s = sum_list xs"
  define acc' where "acc' = fl (acc + x)"
  have lohi: "0 \<le> lo" "lo \<le> 1" "1 \<le> hi" by (simp_all add: lo_def hi_def)
  have x: "2 powi (- 1022) \<le> x" using Cons.prems(2) by simp
  have x0: "0 < x" using x zero_less_power_int [of "2::real" "- 1022"] by linarith
  have xs: "\<forall>y\<in>set xs. 2 powi (- 1022) \<le> y" using Cons.prems(2) by simp
  have "\<forall>y\<in>set xs. 0 \<le> y"
  proof
    fix y assume "y \<in> set xs"
    then have "2 powi (- 1022) \<le> y" using xs by blast
    then show "0 \<le> y" using zero_less_power_int [of "2::real" "- 1022"] by linarith
  qed
  then have s0: "0 \<le> s" unfolding s_def by (intro sum_list_nonneg) auto
  have "2 powi (- 1022) \<le> acc + x" using x Cons.prems(1) by linarith
  then have b: "lo * (acc + x) \<le> acc'" "acc' \<le> hi * (acc + x)"
    using fl_rel_bounds [of "acc + x"] by (simp_all add: lo_def hi_def acc'_def)
  have ax: "0 \<le> acc + x" using x0 Cons.prems(1) by linarith
  have a0: "0 \<le> acc'" using b(1) lohi ax by (meson mult_nonneg_nonneg order_trans)
  have IH: "lo ^ n * (acc' + s) \<le> foldl fadd acc' xs" "foldl fadd acc' xs \<le> hi ^ n * (acc' + s)"
    using Cons.IH [OF a0 xs] by (simp_all add: lo_def hi_def n_def s_def)
  have l1: "lo * (acc + x + s) \<le> acc' + s"
  proof -
    have "lo * s \<le> 1 * s" using lohi s0 by (intro mult_right_mono) auto
    then show ?thesis using b(1) by (simp add: algebra_simps)
  qed
  have h1: "acc' + s \<le> hi * (acc + x + s)"
  proof -
    have "1 * s \<le> hi * s" using lohi s0 by (intro mult_right_mono) auto
    then show ?thesis using b(2) by (simp add: algebra_simps)
  qed
  have "lo ^ n * (lo * (acc + x + s)) \<le> lo ^ n * (acc' + s)"
    using l1 lohi by (intro mult_left_mono) auto
  moreover have "lo ^ Suc n * (acc + x + s) = lo ^ n * (lo * (acc + x + s))"
    by (simp add: ac_simps)
  ultimately have L: "lo ^ Suc n * (acc + x + s) \<le> foldl fadd acc' xs"
    using IH(1) by linarith
  have "hi ^ n * (acc' + s) \<le> hi ^ n * (hi * (acc + x + s))"
    using h1 lohi by (intro mult_left_mono) auto
  moreover have "hi ^ Suc n * (acc + x + s) = hi ^ n * (hi * (acc + x + s))"
    by (simp add: ac_simps)
  ultimately have H: "foldl fadd acc' xs \<le> hi ^ Suc n * (acc + x + s)"
    using IH(2) by linarith
  have f: "foldl fadd acc (x # xs) = foldl fadd acc' xs" by (simp add: acc'_def fadd_def)
  show ?case
    unfolding f using L H by (simp add: lo_def hi_def n_def s_def add.assoc)
qed

lemma fsum_bounds:
  assumes "\<forall>x\<in>set xs. 2 powi (- 1022) \<le> x"
  shows "(1 - 1 / 2 ^ 53) ^ length xs * sum_list xs \<le> fsum xs \<and>
         fsum xs \<le> (1 + 1 / 2 ^ 53) ^ length xs * sum_list xs"
  using foldl_fadd_bounds [of 0 xs] assms by (simp add: fsum_def)

lemma pow_lo:
  assumes "n \<le> 10 ^ 9"
  shows "1 - 13 / 10 ^ 8 \<le> (1 - 1 / 2 ^ 53 :: real) ^ n"
proof -
  have "1 + real n * (- (1 / 2 ^ 53)) \<le> (1 + (- (1 / 2 ^ 53))) ^ n"
    by (rule Bernoulli_inequality) simp
  moreover have "n \<le> 1000000000" using assms by simp
  then have "real n \<le> real 1000000000" by (simp only: of_nat_le_iff)
  then have "real n \<le> 10 ^ 9" by simp
  then have "real n * (1 / 2 ^ 53) \<le> 10 ^ 9 * (1 / 2 ^ 53)" by (intro mult_right_mono) auto
  moreover have "10 ^ 9 * (1 / 2 ^ 53) \<le> (13 / 10 ^ 8 :: real)" by simp
  ultimately show ?thesis by simp
qed

lemma pow_hi:
  assumes "n \<le> 10 ^ 9"
  shows "(1 + 1 / 2 ^ 53 :: real) ^ n \<le> 1 + 14 / 10 ^ 8"
proof -
  define lo :: real where "lo = 1 - 1 / 2 ^ 53"
  define hi :: real where "hi = 1 + 1 / 2 ^ 53"
  have "hi * lo \<le> 1" by (simp add: lo_def hi_def algebra_simps)
  moreover have "0 \<le> hi * lo" by (simp add: lo_def hi_def)
  ultimately have "(hi * lo) ^ n \<le> 1" by (simp add: power_le_one)
  then have prod: "hi ^ n * lo ^ n \<le> 1" by (simp add: power_mult_distrib)
  have l: "1 - 13 / 10 ^ 8 \<le> lo ^ n" unfolding lo_def using assms by (rule pow_lo)
  have h0: "0 \<le> hi ^ n" by (simp add: hi_def)
  have "hi ^ n * (1 - 13 / 10 ^ 8) \<le> hi ^ n * lo ^ n" using l h0 by (intro mult_left_mono) auto
  then have "hi ^ n * (1 - 13 / 10 ^ 8) \<le> 1" using prod by linarith
  then have "hi ^ n * (99999987 / 100000000) \<le> 1" by simp
  then have "hi ^ n \<le> 100000000 / 99999987" by (simp add: field_simps)
  also have "\<dots> \<le> 1 + 14 / 10 ^ 8" by simp
  finally show ?thesis by (simp add: hi_def)
qed

lemma normal_1e100: "(2::real) powi (- 1022) \<le> 1 / 10 ^ 100"
  by (simp add: power_int_minus field_simps)

lemma normal_1e113: "(2::real) powi (- 1022) \<le> 1 / 10 ^ 113"
  by (simp add: power_int_minus field_simps)

lemma implied_probability_bounds:
  assumes "1 \<le> odds" and "odds \<le> 10 ^ 100"
  shows "implied_probability odds = Inr (fl (1 / odds)) \<and>
         1 / 10 ^ 101 \<le> fl (1 / odds) \<and> fl (1 / odds) \<le> 2"
proof -
  have o0: "0 < odds" using assms(1) by linarith
  have x1: "1 / odds \<le> 1" using assms(1) o0 by simp
  have "1 / 10 ^ 100 \<le> 1 / odds" using assms(2) o0 by (intro divide_left_mono) auto
  then have x2: "1 / 10 ^ 100 \<le> 1 / odds" .
  then have "2 powi (- 1022) \<le> 1 / odds" using normal_1e100 by linarith
  then have b: "(1 / odds) / 2 \<le> fl (1 / odds)" "fl (1 / odds) \<le> 2 * (1 / odds)"
    using fl_half_twice by blast+
  have "(1 / 10 ^ 100) / 2 \<le> (1 / odds) / 2" using x2 by simp
  moreover have "(1 / 10 ^ 101 :: real) \<le> (1 / 10 ^ 100) / 2" by simp
  ultimately have lo: "1 / 10 ^ 101 \<le> fl (1 / odds)" using b(1) by linarith
  have hi: "fl (1 / odds) \<le> 2" using b(2) x1 by linarith
  have "implied_probability odds = Inr (fl (1 / odds))"
    using o0 by (simp add: implied_probability_def fdiv_def)
  then show ?thesis using lo hi by simp
qed

lemma sum_list_scaled_bounds:
  fixes a b :: real
  assumes "\<forall>x\<in>set xs. a * x \<le> f x \<and> f x \<le> b * x"
  shows "a * sum_list xs \<le> sum_list (map f xs) \<and> sum_list (map f xs) \<le> b * sum_list xs"
  using assms by (induction xs) (auto simp: distrib_left intro: add_mono)

lemma sum_list_map_divide:
  fixes xs :: "real list"
  shows "sum_list (map (\<lambda>x. x / c) xs) = sum_list xs / c"
  by (induction xs) (simp_all add: add_divide_distrib)

lemma sum_list_bounds_real:
  fixes xs :: "real list"
  assumes "\<forall>x\<in>set xs. l \<le> x \<and> x \<le> h"
  shows "real (length xs) * l \<le> sum_list xs \<and> sum_list xs \<le> real (length xs) * h"
  using assms by (induction xs) (auto simp: distrib_right intro: add_mono)

text \<open>
  Taking the reciprocal twice gives a probability back up to two roundings.
\<close>

lemma reciprocal_round_trip:
  assumes "1 / 10 ^ 112 \<le> c" and "c \<le> 3"
  shows "\<exists>oc rt. odds_clean c = Inr oc \<and> implied_probability oc = Inr rt \<and>
           \<bar>rt - c\<bar> \<le> 3 / 10 ^ 16 * c \<and> 0 < oc \<and> oc \<le> 10 ^ 113"
proof -
  define u :: real where "u = 1 / 2 ^ 53"
  define r where "r = fl (1 / c)"
  define w where "w = r * c"
  define s where "s = 1 / r"
  define rt where "rt = fl s"
  have u: "0 < u" "u \<le> 12 / 100000000000000000" by (simp_all add: u_def)
  have "(0::real) < 1 / 10 ^ 112" by simp
  then have c0: "0 < c" using assms(1) by linarith
  have ic: "1 / 3 \<le> 1 / c" using assms(2) c0 by (simp add: field_simps)
  have ic2: "1 / c \<le> 10 ^ 112" using assms(1) c0 by (simp add: field_simps)
  have "(2::real) powi (- 1022) \<le> 1 / 3" by (simp add: power_int_minus field_simps)
  then have n1: "2 powi (- 1022) \<le> 1 / c" using ic by linarith
  then have rerr: "\<bar>r - 1 / c\<bar> \<le> (1 / c) * u"
    unfolding r_def u_def by (rule fl_error_pos)
  have "\<bar>r - 1 / c\<bar> * c \<le> ((1 / c) * u) * c" using rerr c0 by (intro mult_right_mono) auto
  moreover have "\<bar>r - 1 / c\<bar> * c = \<bar>w - 1\<bar>"
  proof -
    have "\<bar>r - 1 / c\<bar> * c = \<bar>(r - 1 / c) * c\<bar>" using c0 by (simp add: abs_mult)
    also have "(r - 1 / c) * c = w - 1" using c0 by (simp add: w_def field_simps)
    finally show ?thesis .
  qed
  ultimately have w: "\<bar>w - 1\<bar> \<le> u" using c0 by simp
  have w0: "0 < w" using w u by linarith
  have r0: "0 < r" using w0 c0 by (simp add: w_def zero_less_mult_iff)
  have r_le: "r \<le> 10 ^ 113"
  proof -
    have "r \<le> 2 * (1 / c)" unfolding r_def using fl_half_twice [OF n1] by blast
    then have "r \<le> 2 * 10 ^ 112" using ic2 by linarith
    then show ?thesis by simp
  qed
  have oc: "odds_clean c = Inr r" using c0 by (simp add: odds_clean_def fdiv_def r_def)
  have s0: "0 < s" using r0 by (simp add: s_def)
  have sw: "s * w = c" using r0 by (simp add: s_def w_def)
  have "s * (1 - u) \<le> s * w" using w s0 by (intro mult_left_mono) linarith+
  then have "s - s * u \<le> c" using sw by (simp add: algebra_simps)
  moreover have "s * u \<le> s * (12 / 100000000000000000)" using u s0 by (intro mult_left_mono) auto
  ultimately have s_le: "s \<le> (1000000000000000 / 999999999999999) * c" using c0 by linarith
  have "s * w \<le> s * (1 + u)" using w s0 by (intro mult_left_mono) linarith+
  then have "c \<le> s + s * u" using sw by (simp add: algebra_simps)
  moreover have "s * u \<le> s * 1" using u s0 by (intro mult_left_mono) auto
  ultimately have s_ge: "c / 2 \<le> s" by linarith
  have "(1 / 10 ^ 113 :: real) \<le> (1 / 10 ^ 112) / 2" by simp
  moreover have "(1 / 10 ^ 112) / 2 \<le> c / 2" using assms(1) by simp
  ultimately have "2 powi (- 1022) \<le> s" using s_ge normal_1e113 by linarith
  then have berr: "\<bar>rt - s\<bar> \<le> s * u"
    unfolding rt_def u_def by (rule fl_error_pos)
  have "s - c = s * (1 - w)" using sw by (simp add: algebra_simps)
  then have "\<bar>s - c\<bar> = s * \<bar>1 - w\<bar>" using s0 by (simp add: abs_mult)
  also have "\<dots> \<le> s * u" using w s0 by (intro mult_left_mono) linarith+
  finally have serr: "\<bar>s - c\<bar> \<le> s * u" .
  have "s * u \<le> s * (12 / 100000000000000000)" using u s0 by (intro mult_left_mono) auto
  then have "\<bar>rt - c\<bar> \<le> (24 / 100000000000000000) * s" using berr serr by linarith
  then have "\<bar>rt - c\<bar> \<le> (3 / 10000000000000000) * c" using s_le c0 by linarith
  then have close: "\<bar>rt - c\<bar> \<le> 3 / 10 ^ 16 * c" by simp
  have ip: "implied_probability r = Inr rt"
    using r0 by (simp add: implied_probability_def fdiv_def rt_def s_def)
  show ?thesis using oc ip close r0 r_le by blast
qed

text \<open>
  Margin removal on a market of at most \<open>10\<^sup>9\<close> odds between 1 and \<open>10\<^sup>1\<^sup>0\<^sup>0\<close>: no
  exception, and the cleaned probabilities sum to 1 within \<open>10\<^sup>-\<^sup>6\<close>, both exactly
  and as the float sum.
\<close>

lemma normalize_market_sum:
  assumes "odds \<noteq> []" and "length odds \<le> 10 ^ 9"
    and "\<forall>x\<in>set odds. 1 \<le> x \<and> x \<le> 10 ^ 100"
  shows "\<exists>cleaned. normalize_market odds = Inr cleaned \<and> length cleaned = length odds \<and>
           \<bar>fsum cleaned - 1\<bar> \<le> 1 / 10 ^ 6 \<and> \<bar>sum_list cleaned - 1\<bar> \<le> 1 / 10 ^ 6 \<and>
           (\<forall>c\<in>set cleaned. 1 / 10 ^ 112 \<le> c \<and> c \<le> 3)"
proof -
  define n where "n = length odds"
  define ps where "ps = map (\<lambda>x. fl (1 / x)) odds"
  define S where "S = sum_list ps"
  define T where "T = fsum ps"
  define gs where "gs = map (\<lambda>p. p / T) ps"
  define cleaned where "cleaned = map fl gs"
  define A :: real where "A = 99999987 / 100000000"
  define B :: real where "B = 100000014 / 100000000"
  define L :: real where "L = 1 / 10 ^ 101"
  define G :: real where "G = 1 / 10 ^ 111"
  have n: "0 < n" "n \<le> 10 ^ 9" using assms(1,2) by (simp_all add: n_def)
  have "n \<le> 1000000000" using n(2) by simp
  then have "real n \<le> real 1000000000" by (simp only: of_nat_le_iff)
  then have rn: "real n \<le> 1000000000" by simp
  have len: "length ps = n" by (simp add: ps_def n_def)
  have ips: "traverse implied_probability odds = Inr ps"
    unfolding ps_def using assms(3) implied_probability_bounds by (intro traverse_total) blast
  have pb: "\<forall>p\<in>set ps. L \<le> p \<and> p \<le> 2"
    unfolding ps_def L_def using assms(3) implied_probability_bounds by auto
  have L0: "0 < L" by (simp add: L_def)
  have p_normal: "\<forall>p\<in>set ps. 2 powi (- 1022) \<le> p"
  proof
    fix p assume "p \<in> set ps"
    then have "L \<le> p" using pb by blast
    moreover have "2 powi (- 1022) \<le> L" unfolding L_def by (simp add: power_int_minus field_simps)
    ultimately show "2 powi (- 1022) \<le> p" by linarith
  qed
  have Sb: "real n * L \<le> S" "S \<le> real n * 2"
    using sum_list_bounds_real [of ps L 2] pb by (simp_all add: S_def len)
  have "1 * L \<le> real n * L" using n(1) L0 by (intro mult_right_mono) auto
  then have S_lo: "L \<le> S" using Sb(1) by linarith
  have S0: "0 < S" using S_lo L0 by linarith
  have S_hi: "S \<le> 2000000000" using Sb(2) rn by linarith
  have fb: "(1 - 1 / 2 ^ 53) ^ n * S \<le> T" "T \<le> (1 + 1 / 2 ^ 53) ^ n * S"
    using fsum_bounds [OF p_normal] by (simp_all add: T_def S_def len)
  have "A * S \<le> (1 - 1 / 2 ^ 53) ^ n * S"
    using pow_lo [OF n(2)] S0 unfolding A_def by (intro mult_right_mono) auto
  then have T_lo: "A * S \<le> T" using fb(1) by linarith
  have "(1 + 1 / 2 ^ 53) ^ n * S \<le> B * S"
    using pow_hi [OF n(2)] S0 unfolding B_def by (intro mult_right_mono) auto
  then have T_hi: "T \<le> B * S" using fb(2) by linarith
  have T0: "0 < T" using T_lo S0 unfolding A_def by linarith
  have T_le: "T \<le> 3000000000" using T_hi S_hi unfolding B_def by linarith
  have g_lo: "\<forall>g\<in>set gs. G \<le> g"
  proof
    fix g assume "g \<in> set gs"
    then obtain p where p: "p \<in> set ps" "g = p / T" by (auto simp: gs_def)
    have "L \<le> p" using p(1) pb by blast
    then have "L / T \<le> p / T" using T0 by (simp add: divide_right_mono)
    moreover have "L / 3000000000 \<le> L / T" using T_le T0 L0 by (intro divide_left_mono) auto
    moreover have "G \<le> L / 3000000000" by (simp add: G_def L_def)
    ultimately show "G \<le> g" using p(2) by linarith
  qed
  have G_normal: "2 powi (- 1022) \<le> G" unfolding G_def by (simp add: power_int_minus field_simps)
  have g_normal: "\<forall>g\<in>set gs. 2 powi (- 1022) \<le> g" using g_lo G_normal by fastforce
  have sum_gs: "sum_list gs = S / T" by (simp add: gs_def S_def sum_list_map_divide)
  define rho where "rho = S / T"
  have rho: "9999998 / 10000000 \<le> rho" "rho \<le> 10000002 / 10000000"
  proof -
    have "(9999998 / 10000000) * T \<le> S" using T_hi S0 unfolding B_def by linarith
    then show "9999998 / 10000000 \<le> rho" using T0 by (simp add: rho_def field_simps)
    have "S \<le> (10000002 / 10000000) * T" using T_lo S0 unfolding A_def by linarith
    then show "rho \<le> 10000002 / 10000000" using T0 by (simp add: rho_def field_simps)
  qed
  have g_hi: "\<forall>g\<in>set gs. g \<le> rho"
  proof
    fix g assume "g \<in> set gs"
    then obtain p where p: "p \<in> set ps" "g = p / T" by (auto simp: gs_def)
    have "\<forall>q\<in>set ps. 0 \<le> q" using pb L0 by fastforce
    then have "p \<le> S" unfolding S_def using p(1) by (intro member_le_sum_list) auto
    then show "g \<le> rho" using T0 p(2) by (simp add: rho_def divide_right_mono)
  qed
  have cb: "\<forall>g\<in>set gs. (1 - 1 / 2 ^ 53) * g \<le> fl g \<and> fl g \<le> (1 + 1 / 2 ^ 53) * g"
    using g_normal fl_rel_bounds by blast
  define lo :: real where "lo = 1 - 1 / 2 ^ 53"
  define hi :: real where "hi = 1 + 1 / 2 ^ 53"
  have sc: "lo * rho \<le> sum_list cleaned" "sum_list cleaned \<le> hi * rho"
    using sum_list_scaled_bounds [OF cb] by (simp_all add: cleaned_def sum_gs rho_def lo_def hi_def)
  have "(999999999 / 1000000000) * rho \<le> lo * rho"
    using rho(1) by (intro mult_right_mono) (auto simp: lo_def)
  then have C_lo: "9999997 / 10000000 \<le> sum_list cleaned" using sc(1) rho(1) by linarith
  have "hi * rho \<le> (1000000001 / 1000000000) * rho"
    using rho(1) by (intro mult_right_mono) (auto simp: hi_def)
  then have C_hi: "sum_list cleaned \<le> 10000003 / 10000000" using sc(2) rho(2) by linarith
  have c_rng: "\<forall>c\<in>set cleaned. 1 / 10 ^ 112 \<le> c \<and> c \<le> 3"
  proof
    fix c assume "c \<in> set cleaned"
    then obtain g where g: "g \<in> set gs" "c = fl g" by (auto simp: cleaned_def)
    have gn: "2 powi (- 1022) \<le> g" using g(1) g_normal by blast
    have b: "g / 2 \<le> c" "c \<le> 2 * g" using fl_half_twice [OF gn] g(2) by auto
    have "G / 2 \<le> g / 2" using g(1) g_lo by simp
    moreover have "(1 / 10 ^ 112 :: real) \<le> G / 2" by (simp add: G_def)
    ultimately have "1 / 10 ^ 112 \<le> c" using b(1) by linarith
    moreover have "g \<le> rho" using g(1) g_hi by blast
    then have "c \<le> 3" using b(2) rho(2) by linarith
    ultimately show "1 / 10 ^ 112 \<le> c \<and> c \<le> 3" by simp
  qed
  have c_normal: "\<forall>c\<in>set cleaned. 2 powi (- 1022) \<le> c"
  proof
    fix c assume "c \<in> set cleaned"
    then have "1 / 10 ^ 112 \<le> c" using c_rng by blast
    moreover have "(2::real) powi (- 1022) \<le> 1 / 10 ^ 112"
      by (simp add: power_int_minus field_simps)
    ultimately show "2 powi (- 1022) \<le> c" by linarith
  qed
  have lenc: "length cleaned = n" by (simp add: cleaned_def gs_def len)
  have fc: "(1 - 1 / 2 ^ 53) ^ n * sum_list cleaned \<le> fsum cleaned"
    "fsum cleaned \<le> (1 + 1 / 2 ^ 53) ^ n * sum_list cleaned"
    using fsum_bounds [OF c_normal] by (simp_all add: lenc)
  have C0: "0 \<le> sum_list cleaned" using C_lo by linarith
  have "A * sum_list cleaned \<le> (1 - 1 / 2 ^ 53) ^ n * sum_list cleaned"
    using pow_lo [OF n(2)] C0 unfolding A_def by (intro mult_right_mono) auto
  then have F_lo: "9999995 / 10000000 \<le> fsum cleaned"
    using fc(1) C_lo unfolding A_def by linarith
  have "(1 + 1 / 2 ^ 53) ^ n * sum_list cleaned \<le> B * sum_list cleaned"
    using pow_hi [OF n(2)] C0 unfolding B_def by (intro mult_right_mono) auto
  then have F_hi: "fsum cleaned \<le> 10000005 / 10000000"
    using fc(2) C_hi unfolding B_def by linarith
  have "\<bar>fsum cleaned - 1\<bar> \<le> 1 / 1000000" using F_lo F_hi by linarith
  then have r1: "\<bar>fsum cleaned - 1\<bar> \<le> 1 / 10 ^ 6" by simp
  have "\<bar>sum_list cleaned - 1\<bar> \<le> 1 / 1000000" using C_lo C_hi by linarith
  then have r2: "\<bar>sum_list cleaned - 1\<bar> \<le> 1 / 10 ^ 6" by simp
  have "traverse (\<lambda>p. fdiv p T) ps = Inr (map (\<lambda>p. fl (p / T)) ps)"
    using T0 by (intro traverse_total) (simp add: fdiv_def)
  then have "remove_overround ps = Inr cleaned"
    by (simp add: remove_overround_def Let_def T_def cleaned_def gs_def comp_def)
  then have nm: "normalize_market odds = Inr cleaned" using ips by (simp add: normalize_market_def)
  show ?thesis using nm lenc r1 r2 c_rng by (auto simp: n_def)
qed

text \<open>The market of the two odds 1.5 and 10.0, step by step.\<close>

lemma odds_1p5_10_p0: "implied_probability (3 / 2) = Inr (6004799503160661 / 9007199254740992)"
proof -
  have "fl (1 / (3 / 2)) = 6004799503160661 / 9007199254740992"
    by (rule trans [OF fl_eqI [where e = "- 1" and n = 6004799503160661]]) simp_all
  then show ?thesis by (simp add: implied_probability_def fdiv_def)
qed

lemma odds_1p5_10_p1: "implied_probability 10 = Inr (3602879701896397 / 36028797018963968)"
proof -
  have "fl (1 / 10) = 3602879701896397 / 36028797018963968"
    by (rule trans [OF fl_eqI [where e = "- 4" and n = 7205759403792794]]) simp_all
  then show ?thesis by (simp add: implied_probability_def fdiv_def)
qed

lemma odds_1p5_10_ps: "traverse implied_probability [3 / 2, 10] = Inr [6004799503160661 / 9007199254740992, 3602879701896397 / 36028797018963968]"
  by (simp add: odds_1p5_10_p0 odds_1p5_10_p1)

lemma odds_1p5_10_s0: "fadd 0 (6004799503160661 / 9007199254740992) = 6004799503160661 / 9007199254740992"
  unfolding fadd_def by (rule trans [OF fl_eqI [where e = "- 1" and n = 6004799503160661]]) simp_all

lemma odds_1p5_10_s1: "fadd (6004799503160661 / 9007199254740992) (3602879701896397 / 36028797018963968) = 863189928579345 / 1125899906842624"
  unfolding fadd_def by (rule trans [OF fl_eqI [where e = "- 1" and n = 6905519428634760]]) simp_all

lemma odds_1p5_10_sum: "fsum [6004799503160661 / 9007199254740992, 3602879701896397 / 36028797018963968] = 863189928579345 / 1125899906842624"
  by (simp add: fsum_def odds_1p5_10_s0 odds_1p5_10_s1)

lemma odds_1p5_10_c0: "fdiv (6004799503160661 / 9007199254740992) (863189928579345 / 1125899906842624) = Inr (7832347178035645 / 9007199254740992)"
proof -
  have "fl ((6004799503160661 / 9007199254740992) / (863189928579345 / 1125899906842624)) = 7832347178035645 / 9007199254740992"
    by (rule trans [OF fl_eqI [where e = "- 1" and n = 7832347178035645]]) simp_all
  then show ?thesis by (simp add: fdiv_def)
qed

lemma odds_1p5_10_c1: "fdiv (3602879701896397 / 36028797018963968) (863189928579345 / 1125899906842624) = Inr (1174852076705347 / 9007199254740992)"
proof -
  have "fl ((3602879701896397 / 36028797018963968) / (863189928579345 / 1125899906842624)) = 1174852076705347 / 9007199254740992"
    by (rule trans [OF fl_eqI [where e = "- 3" and n = 4699408306821388]]) simp_all
  then show ?thesis by (simp add: fdiv_def)
qed

lemma odds_1p5_10_clean: "remove_overround [6004799503160661 / 9007199254740992, 3602879701896397 / 36028797018963968] = Inr [7832347178035645 / 9007199254740992, 1174852076705347 / 9007199254740992]"
  by (simp add: remove_overround_def Let_def odds_1p5_10_sum odds_1p5_10_c0 odds_1p5_10_c1)

lemma odds_1p5_10_norm: "normalize_market [3 / 2, 10] = Inr [7832347178035645 / 9007199254740992, 1174852076705347 / 9007199254740992]"
  unfolding normalize_market_def odds_1p5_10_ps by (simp add: odds_1p5_10_clean)

lemma odds_1p5_10_oc: "odds_clean (7832347178035645 / 9007199254740992) = Inr (5179139571476071 / 4503599627370496)"
proof -
  have "fl (1 / (7832347178035645 / 9007199254740992)) = 5179139571476071 / 4503599627370496"
    by (rule trans [OF fl_eqI [where e = "0" and n = 5179139571476071]]) simp_all
  then show ?thesis by (simp add: odds_clean_def fdiv_def)
qed

lemma odds_1p5_10_back: "implied_probability (5179139571476071 / 4503599627370496) = Inr (1958086794508911 / 2251799813685248)"
proof -
  have "fl (1 / (5179139571476071 / 4503599627370496)) = 1958086794508911 / 2251799813685248"
    by (rule trans [OF fl_eqI [where e = "- 1" and n = 7832347178035644]]) simp_all
  then show ?thesis by (simp add: implied_probability_def fdiv_def)
qed

text \<open>
  Claim C3, as stated: the cleaned odds \<open>1 / p_clean\<close> round-trip back to the original
  \<open>p_clean\<close>. In double arithmetic the round trip is not exact: on the odds 1.5 and
  10.0 the first cleaned probability is 0.8695652173913043, its cleaned odds are
  1.1500000000000001, and their reciprocal is 0.8695652173913042.
\<close>

theorem round_trip_counterexample:
  "normalize_market [3 / 2, 10] = Inr [7832347178035645 / 9007199254740992, 1174852076705347 / 9007199254740992] \<and>
   odds_clean (7832347178035645 / 9007199254740992) = Inr (5179139571476071 / 4503599627370496) \<and>
   implied_probability (5179139571476071 / 4503599627370496) = Inr (1958086794508911 / 2251799813685248) \<and>
   (1958086794508911 / 2251799813685248 :: real) \<noteq> 7832347178035645 / 9007199254740992"
proof -
  have c: "(1958086794508911 / 2251799813685248 :: real) \<noteq> 7832347178035645 / 9007199254740992" by simp
  show ?thesis by (intro conjI odds_1p5_10_norm odds_1p5_10_oc odds_1p5_10_back c)
qed

text \<open>
  Claim C3, amended: for every market of at least two and at most \<open>10\<^sup>9\<close> decimal odds,
  each between 1 and \<open>10\<^sup>1\<^sup>0\<^sup>0\<close>, converting each odd to the implied probability
  \<open>1 / odds\<close> and dividing by the sum of the implied probabilities raises no exception
  and yields cleaned probabilities that sum to 1 within \<open>10\<^sup>-\<^sup>6\<close> (as computed by the
  float sum, and exactly), and the cleaned odds \<open>1 / p_clean\<close> convert back to
  \<open>p_clean\<close> up to a relative error of \<open>3 * 10\<^sup>-\<^sup>1\<^sup>6\<close>.
\<close>

theorem normalize_market_sums_to_one:
  assumes "2 \<le> length odds" and "length odds \<le> 10 ^ 9"
    and "\<forall>x\<in>set odds. 1 \<le> x \<and> x \<le> 10 ^ 100"
  shows "\<exists>cleaned. normalize_market odds = Inr cleaned \<and> length cleaned = length odds \<and>
           \<bar>fsum cleaned - 1\<bar> \<le> 1 / 10 ^ 6 \<and> \<bar>sum_list cleaned - 1\<bar> \<le> 1 / 10 ^ 6 \<and>
           (\<forall>c\<in>set cleaned. \<exists>oc p_back.
               odds_clean c = Inr oc \<and> oc \<le> 10 ^ 113 \<and>
               implied_probability oc = Inr p_back \<and>
               \<bar>p_back - c\<bar> \<le> 3 / 10 ^ 16 * c)"
proof -
  have ne: "odds \<noteq> []" using assms(1) by auto
  obtain cleaned where c: "normalize_market odds = Inr cleaned" "length cleaned = length odds"
      "\<bar>fsum cleaned - 1\<bar> \<le> 1 / 10 ^ 6" "\<bar>sum_list cleaned - 1\<bar> \<le> 1 / 10 ^ 6"
      "\<forall>c\<in>set cleaned. 1 / 10 ^ 112 \<le> c \<and> c \<le> 3"
    using normalize_market_sum [OF ne assms(2,3)] by blast
  have "\<forall>c\<in>set cleaned. \<exists>oc p_back.
               odds_clean c = Inr oc \<and> oc \<le> 10 ^ 113 \<and>
               implied_probability oc = Inr p_back \<and>
               \<bar>p_back - c\<bar> \<le> 3 / 10 ^ 16 * c"
  proof
    fix x assume "x \<in> set cleaned"
    then have "1 / 10 ^ 112 \<le> x" "x \<le> 3" using c(5) by blast+
    then show "\<exists>oc p_back.
               odds_clean x = Inr oc \<and> oc \<le> 10 ^ 113 \<and>
               implied_probability oc = Inr p_back \<and>
               \<bar>p_back - x\<bar> \<le> 3 / 10 ^ 16 * x"
      using reciprocal_round_trip [of x] by blast
  qed
  then show ?thesis using c(1-4) by blast
qed

text \<open>The theorem on a market with a margin, the odds 1.8 and 2.1 (raw sum about 1.032).\<close>

lemma odds_1p8_2p1_p0: "implied_probability (8106479329266893 / 4503599627370496) = Inr (2501999792983609 / 4503599627370496)"
proof -
  have "fl (1 / (8106479329266893 / 4503599627370496)) = 2501999792983609 / 4503599627370496"
    by (rule trans [OF fl_eqI [where e = "- 1" and n = 5003999585967218]]) simp_all
  then show ?thesis by (simp add: implied_probability_def fdiv_def)
qed

lemma odds_1p8_2p1_p1: "implied_probability (4728779608739021 / 2251799813685248) = Inr (4289142502257615 / 9007199254740992)"
proof -
  have "fl (1 / (4728779608739021 / 2251799813685248)) = 4289142502257615 / 9007199254740992"
    by (rule trans [OF fl_eqI [where e = "- 2" and n = 8578285004515230]]) simp_all
  then show ?thesis by (simp add: implied_probability_def fdiv_def)
qed

lemma odds_1p8_2p1_ps: "traverse implied_probability [8106479329266893 / 4503599627370496, 4728779608739021 / 2251799813685248] = Inr [2501999792983609 / 4503599627370496, 4289142502257615 / 9007199254740992]"
  by (simp add: odds_1p8_2p1_p0 odds_1p8_2p1_p1)

lemma odds_1p8_2p1_s0: "fadd 0 (2501999792983609 / 4503599627370496) = 2501999792983609 / 4503599627370496"
  unfolding fadd_def by (rule trans [OF fl_eqI [where e = "- 1" and n = 5003999585967218]]) simp_all

lemma odds_1p8_2p1_s1: "fadd (2501999792983609 / 4503599627370496) (4289142502257615 / 9007199254740992) = 145205345128513 / 140737488355328"
  unfolding fadd_def by (rule trans [OF fl_eqI_tie [where e = "0" and n = 4646571044112416]]) simp_all

lemma odds_1p8_2p1_sum: "fsum [2501999792983609 / 4503599627370496, 4289142502257615 / 9007199254740992] = 145205345128513 / 140737488355328"
  by (simp add: fsum_def odds_1p8_2p1_s0 odds_1p8_2p1_s1)

lemma odds_1p8_2p1_c0: "fdiv (2501999792983609 / 4503599627370496) (145205345128513 / 140737488355328) = Inr (2425015183968729 / 4503599627370496)"
proof -
  have "fl ((2501999792983609 / 4503599627370496) / (145205345128513 / 140737488355328)) = 2425015183968729 / 4503599627370496"
    by (rule trans [OF fl_eqI [where e = "- 1" and n = 4850030367937458]]) simp_all
  then show ?thesis by (simp add: fdiv_def)
qed

lemma odds_1p8_2p1_c1: "fdiv (4289142502257615 / 9007199254740992) (145205345128513 / 140737488355328) = Inr (4157168886803535 / 9007199254740992)"
proof -
  have "fl ((4289142502257615 / 9007199254740992) / (145205345128513 / 140737488355328)) = 4157168886803535 / 9007199254740992"
    by (rule trans [OF fl_eqI [where e = "- 2" and n = 8314337773607070]]) simp_all
  then show ?thesis by (simp add: fdiv_def)
qed

lemma odds_1p8_2p1_clean: "remove_overround [2501999792983609 / 4503599627370496, 4289142502257615 / 9007199254740992] = Inr [2425015183968729 / 4503599627370496, 4157168886803535 / 9007199254740992]"
  by (simp add: remove_overround_def Let_def odds_1p8_2p1_sum odds_1p8_2p1_c0 odds_1p8_2p1_c1)

lemma odds_1p8_2p1_norm: "normalize_market [8106479329266893 / 4503599627370496, 4728779608739021 / 2251799813685248] = Inr [2425015183968729 / 4503599627370496, 4157168886803535 / 9007199254740992]"
  unfolding normalize_market_def odds_1p8_2p1_ps by (simp add: odds_1p8_2p1_clean)

theorem normalize_market_sums_to_one_witness:
  "2 \<le> length [8106479329266893 / 4503599627370496, 4728779608739021 / 2251799813685248 :: real] \<and>
   length [8106479329266893 / 4503599627370496, 4728779608739021 / 2251799813685248 :: real] \<le> 10 ^ 9 \<and>
   (1 :: real) \<le> 8106479329266893 / 4503599627370496 \<and> (8106479329266893 / 4503599627370496 :: real) \<le> 10 ^ 100 \<and>
   (1 :: real) \<le> 4728779608739021 / 2251799813685248 \<and> (4728779608739021 / 2251799813685248 :: real) \<le> 10 ^ 100 \<and>
   normalize_market [8106479329266893 / 4503599627370496, 4728779608739021 / 2251799813685248] = Inr [2425015183968729 / 4503599627370496, 4157168886803535 / 9007199254740992] \<and>
   \<bar>fsum [2425015183968729 / 4503599627370496, 4157168886803535 / 9007199254740992] - 1\<bar> \<le> 1 / 10 ^ 6"
proof -
  have h1: "2 \<le> length [8106479329266893 / 4503599627370496, 4728779608739021 / 2251799813685248 :: real]" by simp
  have h2: "length [8106479329266893 / 4503599627370496, 4728779608739021 / 2251799813685248 :: real] \<le> 10 ^ 9" by simp
  have h3: "\<forall>x\<in>set [8106479329266893 / 4503599627370496, 4728779608739021 / 2251799813685248 :: real]. 1 \<le> x \<and> x \<le> 10 ^ 100" by simp
  have h4: "(1 :: real) \<le> 8106479329266893 / 4503599627370496 \<and> (8106479329266893 / 4503599627370496 :: real) \<le> 10 ^ 100 \<and>
   (1 :: real) \<le> 4728779608739021 / 2251799813685248 \<and> (4728779608739021 / 2251799813685248 :: real) \<le> 10 ^ 100" by simp
  obtain cleaned where c: "normalize_market [8106479329266893 / 4503599627370496, 4728779608739021 / 2251799813685248] = Inr cleaned"
      "\<bar>fsum cleaned - 1\<bar> \<le> 1 / 10 ^ 6"
    using normalize_market_sums_to_one [OF h1 h2 h3] by blast
  have "cleaned = [2425015183968729 / 4503599627370496, 4157168886803535 / 9007199254740992]" using c(1) odds_1p8_2p1_norm by simp
  then show ?thesis using c(2) h1 h2 h4 odds_1p8_2p1_norm by blast
qed


section \<open>The worked example of margin removal\<close>

text \<open>
  A market that holds the three odds of the example, 2.20, 3.50 and 9.00, and a fourth
  selection at 5.83, which brings the raw implied sum to about 1.023.
\<close>

lemma example_p0: "implied_probability (2476979795053773 / 1125899906842624) = Inr (8188362958855447 / 18014398509481984)"
proof -
  have "fl (1 / (2476979795053773 / 1125899906842624)) = 8188362958855447 / 18014398509481984"
    by (rule trans [OF fl_eqI [where e = "- 2" and n = 8188362958855447]]) simp_all
  then show ?thesis by (simp add: implied_probability_def fdiv_def)
qed

lemma example_p1: "implied_probability (7 / 2) = Inr (2573485501354569 / 9007199254740992)"
proof -
  have "fl (1 / (7 / 2)) = 2573485501354569 / 9007199254740992"
    by (rule trans [OF fl_eqI [where e = "- 2" and n = 5146971002709138]]) simp_all
  then show ?thesis by (simp add: implied_probability_def fdiv_def)
qed

lemma example_p2: "implied_probability 9 = Inr (2001599834386887 / 18014398509481984)"
proof -
  have "fl (1 / 9) = 2001599834386887 / 18014398509481984"
    by (rule trans [OF fl_eqI [where e = "- 4" and n = 8006399337547548]]) simp_all
  then show ?thesis by (simp add: implied_probability_def fdiv_def)
qed

lemma example_p3: "implied_probability (3281998228446249 / 562949953421312) = Inr (1544974143180273 / 9007199254740992)"
proof -
  have "fl (1 / (3281998228446249 / 562949953421312)) = 1544974143180273 / 9007199254740992"
    by (rule trans [OF fl_eqI [where e = "- 3" and n = 6179896572721092]]) simp_all
  then show ?thesis by (simp add: implied_probability_def fdiv_def)
qed

lemma example_ps: "traverse implied_probability [2476979795053773 / 1125899906842624, 7 / 2, 9, 3281998228446249 / 562949953421312] = Inr [8188362958855447 / 18014398509481984, 2573485501354569 / 9007199254740992, 2001599834386887 / 18014398509481984, 1544974143180273 / 9007199254740992]"
  by (simp add: example_p0 example_p1 example_p2 example_p3)

lemma example_s0: "fadd 0 (8188362958855447 / 18014398509481984) = 8188362958855447 / 18014398509481984"
  unfolding fadd_def by (rule trans [OF fl_eqI [where e = "- 2" and n = 8188362958855447]]) simp_all

lemma example_s1: "fadd (8188362958855447 / 18014398509481984) (2573485501354569 / 9007199254740992) = 1666916745195573 / 2251799813685248"
  unfolding fadd_def by (rule trans [OF fl_eqI_tie [where e = "- 1" and n = 6667666980782292]]) simp_all

lemma example_s2: "fadd (1666916745195573 / 2251799813685248) (2001599834386887 / 18014398509481984) = 958558362246967 / 1125899906842624"
  unfolding fadd_def by (rule trans [OF fl_eqI_tie [where e = "- 1" and n = 7668466897975736]]) simp_all

lemma example_s3: "fadd (958558362246967 / 1125899906842624) (1544974143180273 / 9007199254740992) = 1151680130144501 / 1125899906842624"
  unfolding fadd_def by (rule trans [OF fl_eqI_tie [where e = "0" and n = 4606720520578004]]) simp_all

lemma example_sum: "fsum [8188362958855447 / 18014398509481984, 2573485501354569 / 9007199254740992, 2001599834386887 / 18014398509481984, 1544974143180273 / 9007199254740992] = 1151680130144501 / 1125899906842624"
  by (simp add: fsum_def example_s0 example_s1 example_s2 example_s3)

lemma example_c0: "fdiv (8188362958855447 / 18014398509481984) (1151680130144501 / 1125899906842624) = Inr (8005067423896773 / 18014398509481984)"
proof -
  have "fl ((8188362958855447 / 18014398509481984) / (1151680130144501 / 1125899906842624)) = 8005067423896773 / 18014398509481984"
    by (rule trans [OF fl_eqI [where e = "- 2" and n = 8005067423896773]]) simp_all
  then show ?thesis by (simp add: fdiv_def)
qed

lemma example_c1: "fdiv (2573485501354569 / 9007199254740992) (1151680130144501 / 1125899906842624) = Inr (628969583306175 / 2251799813685248)"
proof -
  have "fl ((2573485501354569 / 9007199254740992) / (1151680130144501 / 1125899906842624)) = 628969583306175 / 2251799813685248"
    by (rule trans [OF fl_eqI [where e = "- 2" and n = 5031756666449400]]) simp_all
  then show ?thesis by (simp add: fdiv_def)
qed

lemma example_c2: "fdiv (2001599834386887 / 18014398509481984) (1151680130144501 / 1125899906842624) = Inr (7827177036699067 / 72057594037927936)"
proof -
  have "fl ((2001599834386887 / 18014398509481984) / (1151680130144501 / 1125899906842624)) = 7827177036699067 / 72057594037927936"
    by (rule trans [OF fl_eqI [where e = "- 4" and n = 7827177036699067]]) simp_all
  then show ?thesis by (simp add: fdiv_def)
qed

lemma example_c3: "fdiv (1544974143180273 / 9007199254740992) (1151680130144501 / 1125899906842624) = Inr (6041560319922093 / 36028797018963968)"
proof -
  have "fl ((1544974143180273 / 9007199254740992) / (1151680130144501 / 1125899906842624)) = 6041560319922093 / 36028797018963968"
    by (rule trans [OF fl_eqI [where e = "- 3" and n = 6041560319922093]]) simp_all
  then show ?thesis by (simp add: fdiv_def)
qed

lemma example_clean: "remove_overround [8188362958855447 / 18014398509481984, 2573485501354569 / 9007199254740992, 2001599834386887 / 18014398509481984, 1544974143180273 / 9007199254740992] = Inr [8005067423896773 / 18014398509481984, 628969583306175 / 2251799813685248, 7827177036699067 / 72057594037927936, 6041560319922093 / 36028797018963968]"
  by (simp add: remove_overround_def Let_def example_sum example_c0 example_c1 example_c2 example_c3)

lemma example_norm: "normalize_market [2476979795053773 / 1125899906842624, 7 / 2, 9, 3281998228446249 / 562949953421312] = Inr [8005067423896773 / 18014398509481984, 628969583306175 / 2251799813685248, 7827177036699067 / 72057594037927936, 6041560319922093 / 36028797018963968]"
  unfolding normalize_market_def example_ps by (simp add: example_clean)

lemma example_oc: "odds_clean (8005067423896773 / 18014398509481984) = Inr (5067392572635805 / 2251799813685248)"
proof -
  have "fl (1 / (8005067423896773 / 18014398509481984)) = 5067392572635805 / 2251799813685248"
    by (rule trans [OF fl_eqI [where e = "1" and n = 5067392572635805]]) simp_all
  then show ?thesis by (simp add: odds_clean_def fdiv_def)
qed

lemma cleaned_near:
  assumes "10225 / 10000 \<le> T" and "T \<le> 10235 / 10000" and "0 < p" and "p \<le> 1"
  shows "p * (10000 / 10235) - 13 / 100000000000 \<le> fl (p / T) \<and>
         fl (p / T) \<le> p * (10000 / 10225) + 13 / 100000000000"
proof -
  have T0: "0 < T" using assms(1) by linarith
  have "p / T \<le> p / (10225 / 10000)" using assms(1,3) by (intro divide_left_mono) auto
  then have hi: "p / T \<le> p * (10000 / 10225)" by simp
  have "p / (10235 / 10000) \<le> p / T" using assms(2,3) T0 by (intro divide_left_mono) auto
  then have lo: "p * (10000 / 10235) \<le> p / T" by simp
  have "0 \<le> p / T" using assms(3) T0 by simp
  then have "\<bar>p / T\<bar> \<le> 1000002" using hi assms(4) by linarith
  then show ?thesis using fl_close [of "p / T"] lo hi by linarith
qed

text \<open>
  Claim C9, as stated: in the market of the odds 2.20, 3.50 and 9.00 with raw implied
  sum about 1.023, the cleaned probabilities are about 0.445, 0.280 and 0.109 and the
  cleaned odds of the first selection are about 2.15. On such a market the sum and the
  three probabilities are as stated (to 0.0005 and 0.001), but the cleaned odds of the
  first selection are about 2.25, which is 2.20 times 1.023, and not 2.15.
\<close>

theorem example_market_counterexample:
  "traverse implied_probability [2476979795053773 / 1125899906842624, 7 / 2, 9, 3281998228446249 / 562949953421312]
     = Inr [8188362958855447 / 18014398509481984, 2573485501354569 / 9007199254740992, 2001599834386887 / 18014398509481984, 1544974143180273 / 9007199254740992] \<and>
   \<bar>fsum [8188362958855447 / 18014398509481984, 2573485501354569 / 9007199254740992, 2001599834386887 / 18014398509481984, 1544974143180273 / 9007199254740992] - 1023 / 1000\<bar> \<le> 1 / 2000 \<and>
   normalize_market [2476979795053773 / 1125899906842624, 7 / 2, 9, 3281998228446249 / 562949953421312]
     = Inr [8005067423896773 / 18014398509481984, 628969583306175 / 2251799813685248, 7827177036699067 / 72057594037927936, 6041560319922093 / 36028797018963968] \<and>
   \<bar>8005067423896773 / 18014398509481984 - 445 / 1000\<bar> \<le> (1 / 1000 :: real) \<and>
   \<bar>628969583306175 / 2251799813685248 - 280 / 1000\<bar> \<le> (1 / 1000 :: real) \<and>
   \<bar>7827177036699067 / 72057594037927936 - 109 / 1000\<bar> \<le> (1 / 1000 :: real) \<and>
   odds_clean (8005067423896773 / 18014398509481984) = Inr (5067392572635805 / 2251799813685248) \<and>
   \<not> \<bar>5067392572635805 / 2251799813685248 - 215 / 100\<bar> \<le> (1 / 20 :: real)"
proof -
  have c1: "traverse implied_probability [2476979795053773 / 1125899906842624, 7 / 2, 9, 3281998228446249 / 562949953421312]
     = Inr [8188362958855447 / 18014398509481984, 2573485501354569 / 9007199254740992, 2001599834386887 / 18014398509481984, 1544974143180273 / 9007199254740992]"
    by (rule example_ps)
  have c2: "\<bar>fsum [8188362958855447 / 18014398509481984, 2573485501354569 / 9007199254740992, 2001599834386887 / 18014398509481984, 1544974143180273 / 9007199254740992] - 1023 / 1000\<bar> \<le> 1 / 2000"
    by (simp add: example_sum)
  have c3: "normalize_market [2476979795053773 / 1125899906842624, 7 / 2, 9, 3281998228446249 / 562949953421312]
     = Inr [8005067423896773 / 18014398509481984, 628969583306175 / 2251799813685248, 7827177036699067 / 72057594037927936, 6041560319922093 / 36028797018963968]"
    by (rule example_norm)
  have c4: "\<bar>8005067423896773 / 18014398509481984 - 445 / 1000\<bar> \<le> (1 / 1000 :: real)"
    by simp
  have c5: "\<bar>628969583306175 / 2251799813685248 - 280 / 1000\<bar> \<le> (1 / 1000 :: real)"
    by simp
  have c6: "\<bar>7827177036699067 / 72057594037927936 - 109 / 1000\<bar> \<le> (1 / 1000 :: real)"
    by simp
  have c7: "odds_clean (8005067423896773 / 18014398509481984) = Inr (5067392572635805 / 2251799813685248)"
    by (rule example_oc)
  have c8: "\<not> \<bar>5067392572635805 / 2251799813685248 - 215 / 100\<bar> \<le> (1 / 20 :: real)"
    by simp
  show ?thesis by (intro conjI c1 c2 c3 c4 c5 c6 c7 c8)
qed

text \<open>
  Claim C9, amended: for every market that starts with the odds 2.20, 3.50 and 9.00 and
  whose raw implied probability sum is 1.023 to within 0.0005, proportional margin
  removal yields cleaned probabilities of 0.445, 0.280 and 0.109 for these selections,
  each to within 0.001, and cleaned (fair) odds of 2.25 for the first selection
  (Player A), to within 0.005; the cleaned probabilities of the whole market sum to 1
  within \<open>10\<^sup>-\<^sup>6\<close> when the market has at most \<open>10\<^sup>9\<close> odds between 1 and \<open>10\<^sup>1\<^sup>0\<^sup>0\<close>.
\<close>

theorem example_market_cleaned:
  assumes "odds = (2476979795053773 / 1125899906842624) # 7 / 2 # 9 # rest"
    and "traverse implied_probability odds = Inr ps"
    and "\<bar>fsum ps - 1023 / 1000\<bar> \<le> 1 / 2000"
  shows "\<exists>cleaned oc. normalize_market odds = Inr cleaned \<and> length cleaned = length odds \<and>
           \<bar>cleaned ! 0 - 445 / 1000\<bar> \<le> 1 / 1000 \<and>
           \<bar>cleaned ! 1 - 280 / 1000\<bar> \<le> 1 / 1000 \<and>
           \<bar>cleaned ! 2 - 109 / 1000\<bar> \<le> 1 / 1000 \<and>
           odds_clean (cleaned ! 0) = Inr oc \<and> \<bar>oc - 225 / 100\<bar> \<le> 1 / 200 \<and>
           (length odds \<le> 10 ^ 9 \<and> (\<forall>x\<in>set odds. 1 \<le> x \<and> x \<le> 10 ^ 100) \<longrightarrow>
              \<bar>fsum cleaned - 1\<bar> \<le> 1 / 10 ^ 6)"
proof -
  define T where "T = fsum ps"
  define cleaned where "cleaned = map (\<lambda>p. fl (p / T)) ps"
  have T: "10225 / 10000 \<le> T" "T \<le> 10235 / 10000" using assms(3) unfolding T_def by linarith+
  have T0: "T \<noteq> 0" using T(1) by linarith
  obtain ps' where ps: "ps = (8188362958855447 / 18014398509481984) # (2573485501354569 / 9007199254740992) # (2001599834386887 / 18014398509481984) # ps'"
    using assms(2) unfolding assms(1)
    by (auto simp: example_p0 example_p1 example_p2 split: sum.splits)
  have "traverse (\<lambda>p. fdiv p T) ps = Inr (map (\<lambda>p. fl (p / T)) ps)"
    using T0 by (intro traverse_total) (simp add: fdiv_def)
  then have "remove_overround ps = Inr cleaned"
    by (simp add: remove_overround_def Let_def T_def cleaned_def)
  then have nm: "normalize_market odds = Inr cleaned"
    using assms(2) by (simp add: normalize_market_def)
  have "length ps = length odds"
    using assms(2) by (induction odds arbitrary: ps) (auto split: sum.splits)
  then have len: "length cleaned = length odds" by (simp add: cleaned_def)
  have c0: "cleaned ! 0 = fl ((8188362958855447 / 18014398509481984) / T)" by (simp add: cleaned_def ps)
  have c1: "cleaned ! 1 = fl ((2573485501354569 / 9007199254740992) / T)" by (simp add: cleaned_def ps)
  have c2: "cleaned ! 2 = fl ((2001599834386887 / 18014398509481984) / T)" by (simp add: cleaned_def ps)
  have b0: "44410 / 100000 \<le> cleaned ! 0" "cleaned ! 0 \<le> 44456 / 100000"
    unfolding c0 using cleaned_near [OF T, of "8188362958855447 / 18014398509481984"] by simp_all
  have b1: "27914 / 100000 \<le> cleaned ! 1" "cleaned ! 1 \<le> 27944 / 100000"
    unfolding c1 using cleaned_near [OF T, of "2573485501354569 / 9007199254740992"] by simp_all
  have b2: "10855 / 100000 \<le> cleaned ! 2" "cleaned ! 2 \<le> 10868 / 100000"
    unfolding c2 using cleaned_near [OF T, of "2001599834386887 / 18014398509481984"] by simp_all
  have a0: "\<bar>cleaned ! 0 - 445 / 1000\<bar> \<le> 1 / 1000" using b0 by linarith
  have a1: "\<bar>cleaned ! 1 - 280 / 1000\<bar> \<le> 1 / 1000" using b1 by linarith
  have a2: "\<bar>cleaned ! 2 - 109 / 1000\<bar> \<le> 1 / 1000" using b2 by linarith
  define c where "c = cleaned ! 0"
  have cpos: "0 < c" using b0(1) by (simp add: c_def) 
  have "1 / c \<le> 1 / (44410 / 100000)" using b0(1) unfolding c_def by (intro divide_left_mono) auto
  then have rhi: "1 / c \<le> 22518 / 10000" by simp
  have "1 / (44456 / 100000) \<le> 1 / c" using b0(2) cpos unfolding c_def by (intro divide_left_mono) auto
  then have rlo: "22494 / 10000 \<le> 1 / c" by simp
  have "\<bar>1 / c\<bar> \<le> 1000002" using rlo rhi by linarith
  then have "1 / c - 13 / 100000000000 \<le> fl (1 / c)" "fl (1 / c) \<le> 1 / c + 13 / 100000000000"
    using fl_close [of "1 / c"] by blast+
  then have oc: "\<bar>fl (1 / c) - 225 / 100\<bar> \<le> 1 / 200" using rlo rhi by linarith
  have oce: "odds_clean (cleaned ! 0) = Inr (fl (1 / c))"
    using cpos by (simp add: odds_clean_def fdiv_def c_def)
  have s: "length odds \<le> 10 ^ 9 \<and> (\<forall>x\<in>set odds. 1 \<le> x \<and> x \<le> 10 ^ 100) \<longrightarrow>
              \<bar>fsum cleaned - 1\<bar> \<le> 1 / 10 ^ 6"
  proof
    assume h: "length odds \<le> 10 ^ 9 \<and> (\<forall>x\<in>set odds. 1 \<le> x \<and> x \<le> 10 ^ 100)"
    have ne: "odds \<noteq> []" using assms(1) by simp
    obtain cl where "normalize_market odds = Inr cl" "\<bar>fsum cl - 1\<bar> \<le> 1 / 10 ^ 6"
      using normalize_market_sum [OF ne] h by blast
    then show "\<bar>fsum cleaned - 1\<bar> \<le> 1 / 10 ^ 6" using nm by simp
  qed
  show ?thesis using nm len a0 a1 a2 oce oc s by blast
qed

theorem example_market_cleaned_witness:
  "traverse implied_probability ((2476979795053773 / 1125899906842624) # 7 / 2 # 9 # [3281998228446249 / 562949953421312])
     = Inr [8188362958855447 / 18014398509481984, 2573485501354569 / 9007199254740992, 2001599834386887 / 18014398509481984, 1544974143180273 / 9007199254740992] \<and>
   \<bar>fsum [8188362958855447 / 18014398509481984, 2573485501354569 / 9007199254740992, 2001599834386887 / 18014398509481984, 1544974143180273 / 9007199254740992] - 1023 / 1000\<bar> \<le> 1 / 2000 \<and>
   length ((2476979795053773 / 1125899906842624) # 7 / 2 # 9 # [3281998228446249 / 562949953421312 :: real]) \<le> 10 ^ 9 \<and>
   (\<exists>cleaned oc. normalize_market ((2476979795053773 / 1125899906842624) # 7 / 2 # 9 # [3281998228446249 / 562949953421312]) = Inr cleaned \<and>
      \<bar>cleaned ! 0 - 445 / 1000\<bar> \<le> 1 / 1000 \<and>
      odds_clean (cleaned ! 0) = Inr oc \<and> \<bar>oc - 225 / 100\<bar> \<le> 1 / 200 \<and>
      \<bar>fsum cleaned - 1\<bar> \<le> 1 / 10 ^ 6)"
proof -
  have h2: "traverse implied_probability ((2476979795053773 / 1125899906842624) # 7 / 2 # 9 # [3281998228446249 / 562949953421312])
     = Inr [8188362958855447 / 18014398509481984, 2573485501354569 / 9007199254740992, 2001599834386887 / 18014398509481984, 1544974143180273 / 9007199254740992]"
    using example_ps by simp
  have h3: "\<bar>fsum [8188362958855447 / 18014398509481984, 2573485501354569 / 9007199254740992, 2001599834386887 / 18014398509481984, 1544974143180273 / 9007199254740992] - 1023 / 1000\<bar> \<le> 1 / 2000"
    by (simp add: example_sum)
  have h4: "length ((2476979795053773 / 1125899906842624) # 7 / 2 # 9 # [3281998228446249 / 562949953421312 :: real]) \<le> 10 ^ 9" by simp
  have h5: "\<forall>x\<in>set ((2476979795053773 / 1125899906842624) # 7 / 2 # 9 # [3281998228446249 / 562949953421312 :: real]). 1 \<le> x \<and> x \<le> 10 ^ 100"
    by simp
  show ?thesis
    using example_market_cleaned [OF refl h2 h3] h2 h3 h4 h5 by blast
qed


section \<open>Properties of the pricing model\<close>

lemma sum_list_times_const:
  fixes xs :: "real list"
  shows "(\<Sum>x\<leftarrow>xs. x * c) = sum_list xs * c"
  by (induction xs) (simp_all add: distrib_right)

lemma override_scale_sum:
  assumes "sum_list lambdas \<noteq> 0"
  shows "sum_list (override_scale t lambdas) = t"
proof -
  have "sum_list (override_scale t lambdas) = sum_list lambdas * (t / sum_list lambdas)"
    unfolding override_scale_def by (rule sum_list_times_const)
  then show ?thesis using assms by simp
qed

text \<open>
  Claim C6: with an active team override, each rate is rescaled to
  \<open>lambda * (override_total / sum lambdas)\<close>. For every list of player rates with
  positive sum (such a list is not empty) the rescaled rates sum exactly to the override
  total, and relative shares are preserved: \<open>l\<^sub>i' * l\<^sub>j = l\<^sub>i * l\<^sub>j'\<close> for every pair, and
  \<open>l\<^sub>i' / l\<^sub>j' = l\<^sub>i / l\<^sub>j\<close> wherever both quotients are defined (the override total and
  \<open>l\<^sub>j\<close> are not zero). An override of 2.5 over the rates 0.40, 0.30 and 0.20 gives
  \<open>10 / 9\<close>, \<open>5 / 6\<close> and \<open>5 / 9\<close>, that is 1.111, 0.833 and 0.556 to three decimals,
  which sum to 2.5.
\<close>

theorem override_scale_preserves_shares:
  assumes "0 < sum_list lambdas"
  shows "sum_list (allocate_lambdas (Some override_total) lambdas) = override_total \<and>
         length (allocate_lambdas (Some override_total) lambdas) = length lambdas \<and>
         (\<forall>i<length lambdas.
            allocate_lambdas (Some override_total) lambdas ! i
              = lambdas ! i * (override_total / sum_list lambdas)) \<and>
         (\<forall>i<length lambdas. \<forall>j<length lambdas.
            allocate_lambdas (Some override_total) lambdas ! i * lambdas ! j
              = lambdas ! i * allocate_lambdas (Some override_total) lambdas ! j \<and>
            (override_total \<noteq> 0 \<and> lambdas ! j \<noteq> 0 \<longrightarrow>
               allocate_lambdas (Some override_total) lambdas ! i
                 / allocate_lambdas (Some override_total) lambdas ! j
               = lambdas ! i / lambdas ! j)) \<and>
         allocate_lambdas (Some (25 / 10)) [40 / 100, 30 / 100, 20 / 100]
           = [10 / 9, 5 / 6, 5 / 9] \<and>
         \<bar>10 / 9 - 1111 / 1000\<bar> \<le> (1 / 2000 :: real) \<and>
         \<bar>5 / 6 - 833 / 1000\<bar> \<le> (1 / 2000 :: real) \<and>
         \<bar>5 / 9 - 556 / 1000\<bar> \<le> (1 / 2000 :: real) \<and>
         sum_list (allocate_lambdas (Some (25 / 10)) [40 / 100, 30 / 100, 20 / 100]) = 25 / 10"
proof -
  let ?k = "override_total / sum_list lambdas"
  have s0: "sum_list lambdas \<noteq> 0" using assms by simp
  have a: "sum_list (allocate_lambdas (Some override_total) lambdas) = override_total"
    using s0 by (simp add: allocate_lambdas_def override_scale_sum)
  have b: "length (allocate_lambdas (Some override_total) lambdas) = length lambdas"
    by (simp add: allocate_lambdas_def override_scale_def)
  have c: "\<forall>i<length lambdas.
            allocate_lambdas (Some override_total) lambdas ! i = lambdas ! i * ?k"
    by (simp add: allocate_lambdas_def override_scale_def)
  have d: "allocate_lambdas (Some override_total) lambdas ! i * lambdas ! j
              = lambdas ! i * allocate_lambdas (Some override_total) lambdas ! j"
    if "i < length lambdas" "j < length lambdas" for i j
    using that c by simp
  have e: "allocate_lambdas (Some override_total) lambdas ! i
                 / allocate_lambdas (Some override_total) lambdas ! j
               = lambdas ! i / lambdas ! j"
    if "i < length lambdas" "j < length lambdas" "override_total \<noteq> 0" "lambdas ! j \<noteq> 0"
    for i j
  proof -
    have "?k \<noteq> 0" using that(3) s0 by simp
    then show ?thesis using that(1,2) c by simp
  qed
  have f: "allocate_lambdas (Some (25 / 10)) [40 / 100, 30 / 100, 20 / 100]
           = [10 / 9, 5 / 6, 5 / 9]"
    by (simp add: allocate_lambdas_def override_scale_def)
  have g: "sum_list (allocate_lambdas (Some (25 / 10)) [40 / 100, 30 / 100, 20 / 100]) = 25 / 10"
    unfolding f by simp
  show ?thesis
    using a b c d e f g by simp
qed

theorem override_scale_preserves_shares_witness:
  "0 < sum_list [61 / 100, 12 / 100 :: real] \<and>
   allocate_lambdas (Some 2) [61 / 100, 12 / 100] = [122 / 73, 24 / 73] \<and>
   sum_list (allocate_lambdas (Some 2) [61 / 100, 12 / 100]) = 2 \<and>
   allocate_lambdas (Some 2) [61 / 100, 12 / 100] ! 0
     / allocate_lambdas (Some 2) [61 / 100, 12 / 100] ! 1 = (61 / 100) / (12 / 100)"
  using override_scale_preserves_shares [of "[61 / 100, 12 / 100]" 2]
  by (simp add: allocate_lambdas_def override_scale_def)

lemma exp_taylor8:
  fixes x :: real
  assumes "\<bar>x\<bar> \<le> 1"
  shows "(\<Sum>m<8. x ^ m / fact m) \<le> exp x \<and>
         exp x \<le> (\<Sum>m<8. x ^ m / fact m) + 3 * x ^ 8 / 40320"
proof -
  obtain t :: real where t: "\<bar>t\<bar> \<le> \<bar>x\<bar>"
    and e: "exp x = (\<Sum>m<8. x ^ m / fact m) + exp t / fact 8 * x ^ 8"
    using Maclaurin_exp_le [of x 8] by blast
  have f8: "fact 8 = (40320 :: real)"
    by (simp add: fact_numeral)
  have x8: "0 \<le> x ^ 8"
    by simp
  have "exp t \<le> exp 1" using t assms by simp
  also have "\<dots> \<le> 3" by (rule exp_le)
  finally have up: "exp t \<le> 3" .
  have lo: "0 \<le> exp t" by simp
  have r1: "0 \<le> exp t / fact 8 * x ^ 8"
    using lo x8 by (simp add: f8)
  have "exp t * x ^ 8 \<le> 3 * x ^ 8"
    using up x8 by (rule mult_right_mono)
  then have r2: "exp t / fact 8 * x ^ 8 \<le> 3 * x ^ 8 / 40320"
    by (simp add: f8)
  show ?thesis using e r1 r2 by linarith
qed

lemma exp_neg_073_bounds:
  "48190 / 100000 < exp (- (73 / 100 :: real)) \<and> exp (- (73 / 100 :: real)) < 48192 / 100000"
proof -
  have s: "(\<Sum>m<8. (- (73 / 100 :: real)) ^ m / fact m)
             = 26986799900091467 / 56000000000000000"
    by (simp add: lessThan_Suc eval_nat_numeral fact_numeral)
  have "\<bar>- (73 / 100 :: real)\<bar> \<le> 1" by simp
  from exp_taylor8 [OF this]
  have lo: "26986799900091467 / 56000000000000000 \<le> exp (- (73 / 100 :: real))"
    and hi: "exp (- (73 / 100 :: real))
               \<le> 26986799900091467 / 56000000000000000 + 3 * (- (73 / 100)) ^ 8 / 40320"
    unfolding s by blast+
  have r: "3 * (- (73 / 100 :: real)) ^ 8 / 40320 \<le> 1 / 100000"
    by (simp add: power_divide)
  show ?thesis
    using lo hi r by linarith
qed

lemma exp_neg_047_bounds:
  "62500 / 100000 < exp (- (47 / 100 :: real)) \<and> exp (- (47 / 100 :: real)) < 62501 / 100000"
proof -
  have s: "(\<Sum>m<8. (- (47 / 100 :: real)) ^ m / fact m)
             = 315001114934669837 / 504000000000000000"
    by (simp add: lessThan_Suc eval_nat_numeral fact_numeral)
  have "\<bar>- (47 / 100 :: real)\<bar> \<le> 1" by simp
  from exp_taylor8 [OF this]
  have lo: "315001114934669837 / 504000000000000000 \<le> exp (- (47 / 100 :: real))"
    and hi: "exp (- (47 / 100 :: real))
               \<le> 315001114934669837 / 504000000000000000 + 3 * (- (47 / 100)) ^ 8 / 40320"
    unfolding s by blast+
  have r: "3 * (- (47 / 100 :: real)) ^ 8 / 40320 \<le> 1 / 1000000"
    by (simp add: power_divide)
  show ?thesis
    using lo hi r by linarith
qed

text \<open>The dashboard's explanation line: a rate of 0.47 gives a probability of 37.5 percent.\<close>

lemma dashboard_example:
  "\<bar>event_probability (47 / 100) - 375 / 1000\<bar> \<le> 1 / 2000"
  using exp_neg_047_bounds by (simp add: event_probability_def abs_le_iff)

text \<open>
  Claim C8: the event probability is \<open>1 - exp (- lambda)\<close>; it is strictly increasing in
  the rate; and the goalscorer rate \<open>0.61 + 0.12 = 0.73\<close> gives a probability of 0.518
  to three decimals.
\<close>

theorem event_probability_strictly_increasing:
  "(\<forall>l1 l2. l1 < l2 \<longrightarrow> event_probability l1 < event_probability l2) \<and>
   (\<forall>lam. event_probability lam = 1 - exp (- lam)) \<and>
   goalscorer_lambda (61 / 100) (12 / 100) = 73 / 100 \<and>
   \<bar>event_probability (goalscorer_lambda (61 / 100) (12 / 100)) - 518 / 1000\<bar> \<le> 1 / 2000"
proof -
  have m: "\<forall>l1 l2. l1 < l2 \<longrightarrow> event_probability l1 < event_probability l2"
    by (simp add: event_probability_def)
  have l: "goalscorer_lambda (61 / 100) (12 / 100) = 73 / 100"
    by (simp add: goalscorer_lambda_def)
  have d: "\<forall>lam. event_probability lam = 1 - exp (- lam)"
    by (simp add: event_probability_def)
  have v: "\<bar>event_probability (goalscorer_lambda (61 / 100) (12 / 100)) - 518 / 1000\<bar>
             \<le> 1 / 2000"
    unfolding l using exp_neg_073_bounds by (simp add: event_probability_def abs_le_iff)
  show ?thesis
    by (intro conjI m d l v)
qed

theorem event_probability_strictly_increasing_witness:
  "(47 / 100 :: real) < 73 / 100 \<and> event_probability (47 / 100) < event_probability (73 / 100)"
  using event_probability_strictly_increasing by simp



section \<open>Properties of exposure control\<close>

lemma apply_exposure_caps_length:
  "length (apply_exposure_caps caps accepted bs) = length bs"
  by (induction bs arbitrary: accepted) simp_all

lemma accepted_before_0 [simp]: "accepted_before ds 0 = []"
  by (simp add: accepted_before_def)

lemma accepted_before_Suc_rejected:
  "status d \<noteq> RECOMMENDED \<Longrightarrow> accepted_before (d # ds) (Suc i) = accepted_before ds i"
  by (simp add: accepted_before_def)

lemma accepted_before_Suc_recommended:
  "status d = RECOMMENDED \<Longrightarrow>
   accepted_before (d # ds) (Suc i) = candidate d # accepted_before ds i"
  by (simp add: accepted_before_def)

lemma apply_exposure_caps_nth:
  "i < length bs \<Longrightarrow>
   apply_exposure_caps caps accepted bs ! i =
     (if exceeds_cap caps
           (accepted @ accepted_before (apply_exposure_caps caps accepted bs) i) (bs ! i)
      then \<lparr>candidate = bs ! i, decided_stake = stake (bs ! i), status = REJECTED,
            rejection_reason = Some ''EXPOSURE_CAP''\<rparr>
      else \<lparr>candidate = bs ! i, decided_stake = stake (bs ! i), status = RECOMMENDED,
            rejection_reason = None\<rparr>)"
proof (induction bs arbitrary: accepted i)
  case Nil
  then show ?case by simp
next
  case (Cons b bs)
  show ?case
  proof (cases i)
    case 0
    then show ?thesis by simp
  next
    case (Suc k)
    then have k: "k < length bs" using Cons.prems by simp
    show ?thesis
    proof (cases "exceeds_cap caps accepted b")
      case True
      then show ?thesis
        using Cons.IH [OF k, of accepted] Suc
        by (simp add: accepted_before_Suc_rejected)
    next
      case False
      then show ?thesis
        using Cons.IH [OF k, of "accepted @ [b]"] Suc
        by (simp add: accepted_before_Suc_recommended)
    qed
  qed
qed

text \<open>
  Claim C7: exposure control answers every candidate, in order, with one decision that
  carries the candidate and its stake unchanged. A candidate whose stake would take the
  exposure of its match, of its player (over both phases) or of its day above the cap,
  given the bets accepted so far, is rejected with the reason \<^verbatim>\<open>EXPOSURE_CAP\<close>; every
  other candidate is recommended, with no rejection reason.
\<close>

theorem exposure_caps_reject_never_resize:
  "length (apply_exposure_caps caps accepted bs) = length bs \<and>
   (\<forall>i<length bs.
      candidate (apply_exposure_caps caps accepted bs ! i) = bs ! i \<and>
      decided_stake (apply_exposure_caps caps accepted bs ! i) = stake (bs ! i) \<and>
      (if exceeds_cap caps
            (accepted @ accepted_before (apply_exposure_caps caps accepted bs) i) (bs ! i)
       then status (apply_exposure_caps caps accepted bs ! i) = REJECTED \<and>
            rejection_reason (apply_exposure_caps caps accepted bs ! i) = Some ''EXPOSURE_CAP''
       else status (apply_exposure_caps caps accepted bs ! i) = RECOMMENDED \<and>
            rejection_reason (apply_exposure_caps caps accepted bs ! i) = None))"
proof (intro conjI allI impI)
  show "length (apply_exposure_caps caps accepted bs) = length bs"
    by (rule apply_exposure_caps_length)
next
  fix i assume i: "i < length bs"
  show "candidate (apply_exposure_caps caps accepted bs ! i) = bs ! i"
    by (simp add: apply_exposure_caps_nth [OF i])
  show "decided_stake (apply_exposure_caps caps accepted bs ! i) = stake (bs ! i)"
    by (simp add: apply_exposure_caps_nth [OF i])
  show "if exceeds_cap caps
            (accepted @ accepted_before (apply_exposure_caps caps accepted bs) i) (bs ! i)
       then status (apply_exposure_caps caps accepted bs ! i) = REJECTED \<and>
            rejection_reason (apply_exposure_caps caps accepted bs ! i) = Some ''EXPOSURE_CAP''
       else status (apply_exposure_caps caps accepted bs ! i) = RECOMMENDED \<and>
            rejection_reason (apply_exposure_caps caps accepted bs ! i) = None"
    using apply_exposure_caps_nth [OF i, of caps accepted]
    by (cases "exceeds_cap caps
            (accepted @ accepted_before (apply_exposure_caps caps accepted bs) i) (bs ! i)")
       simp_all
qed

theorem exposure_caps_reject_never_resize_witness:
  "(0::nat) < length [\<lparr>bet_fixture = ''2026-01-30_PSG_Lyon'', bet_player = ''psg_mbappe_kylian'',
          bet_day = ''2026-01-30'', bet_phase = LINEUP, stake = 1\<rparr>] \<and>
   apply_exposure_caps default_caps
     [\<lparr>bet_fixture = ''2026-01-30_PSG_Lyon'', bet_player = ''psg_mbappe_kylian'',
       bet_day = ''2026-01-30'', bet_phase = EARLY, stake = 75 / 100\<rparr>]
     [\<lparr>bet_fixture = ''2026-01-30_PSG_Lyon'', bet_player = ''psg_mbappe_kylian'',
       bet_day = ''2026-01-30'', bet_phase = LINEUP, stake = 1\<rparr>]
   = [\<lparr>candidate = \<lparr>bet_fixture = ''2026-01-30_PSG_Lyon'', bet_player = ''psg_mbappe_kylian'',
          bet_day = ''2026-01-30'', bet_phase = LINEUP, stake = 1\<rparr>,
       decided_stake = 1, status = REJECTED, rejection_reason = Some ''EXPOSURE_CAP''\<rparr>] \<and>
   apply_exposure_caps default_caps
     [\<lparr>bet_fixture = ''2026-01-30_PSG_Lyon'', bet_player = ''psg_mbappe_kylian'',
       bet_day = ''2026-01-30'', bet_phase = EARLY, stake = 75 / 100\<rparr>]
     [\<lparr>bet_fixture = ''2026-01-30_PSG_Lyon'', bet_player = ''psg_dembele_ousmane'',
       bet_day = ''2026-01-30'', bet_phase = LINEUP, stake = 1\<rparr>]
   = [\<lparr>candidate = \<lparr>bet_fixture = ''2026-01-30_PSG_Lyon'', bet_player = ''psg_dembele_ousmane'',
          bet_day = ''2026-01-30'', bet_phase = LINEUP, stake = 1\<rparr>,
       decided_stake = 1, status = RECOMMENDED, rejection_reason = None\<rparr>]"
  using exposure_caps_reject_never_resize [of default_caps
     "[\<lparr>bet_fixture = ''2026-01-30_PSG_Lyon'', bet_player = ''psg_mbappe_kylian'',
       bet_day = ''2026-01-30'', bet_phase = EARLY, stake = 75 / 100\<rparr>]"
     "[\<lparr>bet_fixture = ''2026-01-30_PSG_Lyon'', bet_player = ''psg_mbappe_kylian'',
       bet_day = ''2026-01-30'', bet_phase = LINEUP, stake = 1\<rparr>]"]
  by (simp add: default_caps_def exceeds_cap_def exposure_of_def)


section \<open>Properties of the backtest\<close>

lemma no_look_ahead_iff:
  "no_look_ahead d = (\<forall>s\<in>set (snapshots_used d). as_of s \<le> decision_timestamp d)"
  by (simp add: no_look_ahead_def list_all_iff)

lemma window_ok_iff:
  "window_ok w = (\<forall>t\<in>set (train w). \<forall>u\<in>set (test w). t < u)"
  by (simp add: window_ok_def list_all_iff)

lemma window_ok_Min:
  "test w \<noteq> [] \<Longrightarrow> window_ok w = (\<forall>t\<in>set (train w). t < Min (set (test w)))"
  by (simp add: window_ok_iff)

lemma window_ok_empty: "test w = [] \<Longrightarrow> window_ok w"
  by (simp add: window_ok_iff)

text \<open>
  The query of the backtesting document returns no snapshot later than the bet, and
  every window of the walk-forward protocol trains strictly before its test period.
\<close>

lemma query_snapshots_no_look_ahead:
  "no_look_ahead \<lparr>decision_timestamp = T, snapshots_used = query_snapshots db T\<rparr>"
  by (simp add: no_look_ahead_iff query_snapshots_def)

lemma walk_forward_window_ok:
  "w \<in> set (walk_forward ts bs) \<Longrightarrow> window_ok w"
  by (induction ts bs rule: walk_forward.induct) (auto simp: window_ok_iff)

lemma walk_forward_expanding:
  "b0 \<le> b1 \<Longrightarrow>
   set (train (hd (walk_forward ts (b1 # b2 # bs))))
     = set (train (hd (walk_forward ts (b0 # b1 # b2 # bs))))
       \<union> set (test (hd (walk_forward ts (b0 # b1 # b2 # bs))))"
  by auto

lemma checks_iff_no_leak:
  "(list_all window_ok windows \<and> list_all no_look_ahead decisions) = (\<not> leak windows decisions)"
proof -
  have w: "list_all window_ok windows =
           (\<forall>w\<in>set windows. test w \<noteq> [] \<longrightarrow> (\<forall>t\<in>set (train w). t < Min (set (test w))))"
    unfolding list_all_iff
    using window_ok_Min window_ok_empty by blast
  have d: "list_all no_look_ahead decisions =
           (\<forall>d\<in>set decisions. \<forall>s\<in>set (snapshots_used d). as_of s \<le> decision_timestamp d)"
    by (simp add: list_all_iff no_look_ahead_iff)
  show ?thesis
    unfolding w d leak_def by (auto simp: not_less not_le)
qed

text \<open>
  Claim C2: a backtest run that reports has used, for every decision, only snapshots
  stamped no later than the decision timestamp, and in every walk-forward window with
  test data every training timestamp is strictly less than the earliest test timestamp.
  A run with any violation fails with \<^verbatim>\<open>LeakageViolation\<close> and yields no report.
\<close>

theorem backtest_leakage_discards_run:
  "(case run_backtest report windows decisions of
      Inr r \<Rightarrow>
        r = report decisions \<and>
        (\<forall>d\<in>set decisions. \<forall>s\<in>set (snapshots_used d). as_of s \<le> decision_timestamp d) \<and>
        (\<forall>w\<in>set windows. test w \<noteq> [] \<longrightarrow> (\<forall>t\<in>set (train w). t < Min (set (test w))))
    | Inl e \<Rightarrow> e = LeakageViolation \<and> leak windows decisions) \<and>
   (leak windows decisions \<longrightarrow> run_backtest report windows decisions = Inl LeakageViolation)"
proof (cases "leak windows decisions")
  case True
  then have "run_backtest report windows decisions = Inl LeakageViolation"
    using checks_iff_no_leak [of windows decisions] by (simp add: run_backtest_def)
  then show ?thesis using True by simp
next
  case False
  then have r: "run_backtest report windows decisions = Inr (report decisions)"
    using checks_iff_no_leak [of windows decisions] by (simp add: run_backtest_def)
  have "\<forall>d\<in>set decisions. \<forall>s\<in>set (snapshots_used d). as_of s \<le> decision_timestamp d"
    using False unfolding leak_def by (auto simp: not_less)
  moreover have "\<forall>w\<in>set windows. test w \<noteq> [] \<longrightarrow> (\<forall>t\<in>set (train w). t < Min (set (test w)))"
    using False unfolding leak_def by (auto simp: not_le)
  ultimately show ?thesis using r False by simp
qed

theorem backtest_leakage_discards_run_witness:
  "leak [] [\<lparr>decision_timestamp = 4, snapshots_used = [\<lparr>as_of = 1\<rparr>, \<lparr>as_of = 5\<rparr>]\<rparr>] \<and>
   run_backtest length [] [\<lparr>decision_timestamp = 4, snapshots_used = [\<lparr>as_of = 1\<rparr>, \<lparr>as_of = 5\<rparr>]\<rparr>]
     = Inl LeakageViolation \<and>
   leak [\<lparr>train = [1, 2, 3], test = [3, 4]\<rparr>] [] \<and>
   run_backtest length [\<lparr>train = [1, 2, 3], test = [3, 4]\<rparr>] [] = Inl LeakageViolation \<and>
   run_backtest length (walk_forward [1, 2, 3, 4, 5, 6] [3, 5, 7])
     [\<lparr>decision_timestamp = 4, snapshots_used = query_snapshots [\<lparr>as_of = 1\<rparr>, \<lparr>as_of = 5\<rparr>] 4\<rparr>]
     = Inr 1"
proof -
  have l1: "leak [] [\<lparr>decision_timestamp = 4, snapshots_used = [\<lparr>as_of = 1\<rparr>, \<lparr>as_of = 5\<rparr>]\<rparr>]"
    by (simp add: leak_def)
  have l2: "leak [\<lparr>train = [1, 2, 3], test = [3, 4]\<rparr>] []"
    by (simp add: leak_def)
  have ok: "run_backtest length (walk_forward [1, 2, 3, 4, 5, 6] [3, 5, 7])
     [\<lparr>decision_timestamp = 4, snapshots_used = query_snapshots [\<lparr>as_of = 1\<rparr>, \<lparr>as_of = 5\<rparr>] 4\<rparr>]
     = Inr 1"
    by (simp add: run_backtest_def window_ok_def no_look_ahead_def query_snapshots_def)
  show ?thesis
    using l1 l2 ok
      backtest_leakage_discards_run [where report = length and windows = "[]" and
        decisions = "[\<lparr>decision_timestamp = 4, snapshots_used = [\<lparr>as_of = 1\<rparr>, \<lparr>as_of = 5\<rparr>]\<rparr>]"]
      backtest_leakage_discards_run [where report = length and
        windows = "[\<lparr>train = [1, 2, 3], test = [3, 4]\<rparr>]" and decisions = "[]"]
    by blast
qed

text \<open>
  A run fed by the walk-forward protocol and by the as-of query always reports.
\<close>

lemma pipeline_never_leaks:
  "run_backtest report (walk_forward ts bs)
     (map (\<lambda>T. \<lparr>decision_timestamp = T, snapshots_used = query_snapshots db T\<rparr>) Ts)
   = Inr (report (map (\<lambda>T. \<lparr>decision_timestamp = T, snapshots_used = query_snapshots db T\<rparr>) Ts))"
  by (simp add: run_backtest_def list_all_iff walk_forward_window_ok
      query_snapshots_no_look_ahead)

end
